theory Spec2Isabelle
  imports Complex_Main "HOL-Library.AList"
begin

section \<open>BiasAwareUserCF: a shallow embedding of main.cpp\<close>

text \<open>
  The program reads a training stream of rating triples, fits a global mean and
  per-user / per-item biases, builds residual-based user-user similarities, keeps a
  bounded neighbour queue per user, and answers (user, item) queries.

  Conventions of the embedding.
  \<^item> C++ \<open>int\<close> identifiers are HOL \<open>int\<close>. The only arithmetic on them, apart
    from comparison, is \<open>maxItemId + 1\<close> for the sizes of the two vectors; the
    predicate \<open>addressable\<close> below keeps that sum inside the 32-bit range.
  \<^item> C++ \<open>double\<close> is idealised as \<open>real\<close>: the development is about which terms
    enter which sum, not about rounding.
  \<^item> \<open>unordered_map\<close> objects the program iterates over (\<open>ratingsByUsers\<close>, its
    inner maps, \<open>dotAB\<close>) are association lists with distinct keys whose list order
    stands for the iteration order of the hash table; a new key is put at the end.
    The iteration order of a real hash table is another one, so the order of the
    lists and the exact fitted numbers of a concrete stream are those of this
    convention; the statements below do not depend on the order.
    Maps that are only looked up (\<open>userBias\<close>, \<open>magnitudeMap\<close>,
    \<open>topNeighbors\<close>) are partial functions.
  \<^item> Line parsing is outside the model: the training stream is a list of typed
    triples and the query stream a list of typed pairs (sentinel lines and blank
    query lines are dropped by the reader), and a prediction is the number handed
    to the output stream.
\<close>

subsection \<open>Tunable parameters (main.cpp lines 33-40)\<close>

definition K :: nat where "K = 190"
definition SHRINK :: real where "SHRINK = 10"
definition AMP_FACTOR :: real where "AMP_FACTOR = 13 / 10"
definition NUM_ITERS :: nat where "NUM_ITERS = 8"
definition ALPHA :: real where "ALPHA = 1 / 100"
definition REG :: real where "REG = 2 / 100"

subsection \<open>Stage 1: ingestion (lines 56-90)\<close>

type_synonym rating_record = "int \<times> int \<times> real"
type_synonym user_ratings = "(int \<times> real) list"
type_synonym rating_store = "(int \<times> user_ratings) list"

record ingest_state =
  ratingsByUsers :: rating_store
  globalSum :: real
  globalCount :: int
  maxUserId :: int
  maxItemId :: int

definition ingest_init :: ingest_state where
  "ingest_init = \<lparr>ratingsByUsers = [], globalSum = 0, globalCount = 0,
                  maxUserId = 0, maxItemId = 0\<rparr>"

text \<open>\<open>ratingsByUsers[userId]\<close> as an rvalue: the inner map, empty when the key is new.\<close>

definition ratingsOf :: "rating_store \<Rightarrow> int \<Rightarrow> user_ratings" where
  "ratingsOf store u = (case map_of store u of None \<Rightarrow> [] | Some m \<Rightarrow> m)"

text \<open>\<open>ratingsByUsers[userId][itemId] = rating\<close>: insert or overwrite.\<close>

definition put_rating :: "int \<Rightarrow> int \<Rightarrow> real \<Rightarrow> rating_store \<Rightarrow> rating_store" where
  "put_rating u i r store = AList.update u (AList.update i r (ratingsOf store u)) store"

text \<open>The body of the reading loop for one training line (lines 80-89).\<close>

definition ingest_step :: "ingest_state \<Rightarrow> rating_record \<Rightarrow> ingest_state" where
  "ingest_step st rec =
     (case rec of (userId, itemId, rating) \<Rightarrow>
        \<lparr>ratingsByUsers = put_rating userId itemId rating (ratingsByUsers st),
         globalSum = globalSum st + rating,
         globalCount = globalCount st + 1,
         maxUserId = (if userId > maxUserId st then userId else maxUserId st),
         maxItemId = (if itemId > maxItemId st then itemId else maxItemId st)\<rparr>)"

definition ingest :: "rating_record list \<Rightarrow> ingest_state" where
  "ingest recs = foldl ingest_step ingest_init recs"

subsection \<open>Stage 2: global mean (line 93)\<close>

definition globalMeanOf :: "ingest_state \<Rightarrow> real" where
  "globalMeanOf st =
     (if globalCount st > 0 then globalSum st / real_of_int (globalCount st) else 7 / 2)"

text \<open>
  The reading of the data model used for comparison: the ratings the Rating Store
  retains after ingestion, one per (user, item) pair, and their arithmetic mean.
\<close>

definition retainedRatings :: "rating_store \<Rightarrow> real list" where
  "retainedRatings store = concat (map (\<lambda>(u, m). map snd m) store)"

definition retainedMean :: "rating_store \<Rightarrow> real" where
  "retainedMean store =
     (if retainedRatings store = [] then 7 / 2
      else sum_list (retainedRatings store) / real (length (retainedRatings store)))"

subsection \<open>Stages 3 and 4: bias initialisation and gradient refinement (lines 97-129)\<close>

type_synonym user_bias = "int \<rightharpoonup> real"
type_synonym item_bias = "real list"

text \<open>
  \<open>userBias[u]\<close> on an \<open>unordered_map\<close> yields the stored value, and inserts the key
  with value 0.0 when it is absent. \<open>ubGet\<close> is the value read, \<open>ubTouch\<close> the map
  left behind by a read.
\<close>

definition ubGet :: "user_bias \<Rightarrow> int \<Rightarrow> real" where
  "ubGet userBias u = (case userBias u of None \<Rightarrow> 0 | Some b \<Rightarrow> b)"

definition ubTouch :: "user_bias \<Rightarrow> int \<Rightarrow> user_bias" where
  "ubTouch userBias u = (case userBias u of None \<Rightarrow> userBias(u \<mapsto> 0) | Some b \<Rightarrow> userBias)"

text \<open>Lines 101-104: every user of the store gets bias 0.0.\<close>

definition initUserBias :: "rating_store \<Rightarrow> user_bias" where
  "initUserBias store = foldl (\<lambda>userBias uPair. userBias(fst uPair \<mapsto> 0)) Map.empty store"

text \<open>Line 98: \<open>vector<double> itemBias(maxItemId + 1, 0.0)\<close>.\<close>

definition initItemBias :: "int \<Rightarrow> item_bias" where
  "initItemBias maxItem = replicate (nat (maxItem + 1)) 0"

text \<open>
  The body of the innermost fitting loop (lines 116-126) for the rating \<open>mPair\<close> of
  user \<open>u\<close>. The vector is indexed with \<open>nat i\<close>; item ids of stored ratings lie in
  \<open>0..maxItemId\<close> whenever they are non-negative (see \<open>train\<close> below).
\<close>

definition biasUpdate ::
  "real \<Rightarrow> int \<Rightarrow> user_bias \<times> item_bias \<Rightarrow> int \<times> real \<Rightarrow> user_bias \<times> item_bias" where
  "biasUpdate globalMean u st mPair =
     (case st of (userBias, itemBias) \<Rightarrow>
      case mPair of (i, r) \<Rightarrow>
        let bu = ubGet userBias u;
            bi = itemBias ! nat i;
            pred = globalMean + bu + bi;
            err = r - pred
        in (userBias(u \<mapsto> bu + ALPHA * (err - REG * bu)),
            itemBias[nat i := bi + ALPHA * (err - REG * bi)]))"

text \<open>One pass (lines 113-128): users in store order, each user's ratings in order.\<close>

definition biasPass ::
  "real \<Rightarrow> rating_store \<Rightarrow> user_bias \<times> item_bias \<Rightarrow> user_bias \<times> item_bias" where
  "biasPass globalMean store st =
     foldl (\<lambda>st uPair. foldl (biasUpdate globalMean (fst uPair)) st (snd uPair)) st store"

text \<open>Line 112: \<open>for (iter = 0; iter < NUM_ITERS; iter++)\<close>.\<close>

definition fitBiases ::
  "real \<Rightarrow> rating_store \<Rightarrow> user_bias \<times> item_bias \<Rightarrow> user_bias \<times> item_bias" where
  "fitBiases globalMean store st = ((biasPass globalMean store) ^^ NUM_ITERS) st"

text \<open>
  The Bias Estimator as the specification words it, for comparison with the code: the
  stored ratings as one sequence of (user, item, rating) triples in stored order, and
  a pass that handles them one after the other, each step starting from the biases the
  previous step left.
\<close>

definition storedRatings :: "rating_store \<Rightarrow> rating_record list" where
  "storedRatings store = concat (map (\<lambda>(u, m). map (\<lambda>(i, r). (u, i, r)) m) store)"

definition sgdError :: "real \<Rightarrow> user_bias \<times> item_bias \<Rightarrow> rating_record \<Rightarrow> real" where
  "sgdError globalMean st rec =
     (case st of (userBias, itemBias) \<Rightarrow>
      case rec of (u, i, r) \<Rightarrow> r - (globalMean + ubGet userBias u + itemBias ! nat i))"

definition sgdStep ::
  "real \<Rightarrow> user_bias \<times> item_bias \<Rightarrow> rating_record \<Rightarrow> user_bias \<times> item_bias" where
  "sgdStep globalMean st rec =
     (case st of (userBias, itemBias) \<Rightarrow>
      case rec of (u, i, r) \<Rightarrow>
        (userBias(u \<mapsto> ubGet userBias u
            + (1 / 100) * (sgdError globalMean st rec - (2 / 100) * ubGet userBias u)),
         itemBias[nat i := itemBias ! nat i
            + (1 / 100) * (sgdError globalMean st rec - (2 / 100) * (itemBias ! nat i))]))"

primrec sgdPass ::
  "real \<Rightarrow> rating_record list \<Rightarrow> user_bias \<times> item_bias \<Rightarrow> user_bias \<times> item_bias" where
  "sgdPass globalMean [] st = st"
| "sgdPass globalMean (rec # rest) st = sgdPass globalMean rest (sgdStep globalMean st rec)"

subsection \<open>Stage 5: residuals grouped by item (lines 133-143)\<close>

type_synonym item_users = "(int \<times> real) list list"

definition projectRating ::
  "real \<Rightarrow> item_bias \<Rightarrow> int \<Rightarrow> user_bias \<times> item_users \<Rightarrow> int \<times> real
     \<Rightarrow> user_bias \<times> item_users" where
  "projectRating globalMean itemBias u st mPair =
     (case st of (userBias, itemToUser) \<Rightarrow>
      case mPair of (i, r) \<Rightarrow>
        let baseline = globalMean + ubGet userBias u + itemBias ! nat i;
            residual = r - baseline
        in (ubTouch userBias u,
            itemToUser[nat i := itemToUser ! nat i @ [(u, residual)]]))"

definition buildItemToUser ::
  "real \<Rightarrow> item_bias \<Rightarrow> rating_store \<Rightarrow> user_bias \<Rightarrow> int \<Rightarrow> user_bias \<times> item_users" where
  "buildItemToUser globalMean itemBias store userBias maxItem =
     foldl (\<lambda>st uPair. foldl (projectRating globalMean itemBias (fst uPair)) st (snd uPair))
       (userBias, replicate (nat (maxItem + 1)) []) store"

subsection \<open>Stage 6: magnitudes and dot products (lines 146-179)\<close>

record DotData =
  sumD :: real
  countD :: int

definition DotData0 :: DotData where
  "DotData0 = \<lparr>sumD = 0, countD = 0\<rparr>"

type_synonym magnitude_map = "int \<rightharpoonup> real"
type_synonym dot_map = "(int \<times> (int \<times> DotData) list) list"

text \<open>
  \<open>magnitudeMap\<close> is only ever accessed through \<open>operator[]\<close>, so a key inserted by
  a read (with value 0.0) cannot be told from an absent key: reads are modelled by
  \<open>magGet\<close> alone.
\<close>

definition magGet :: "magnitude_map \<Rightarrow> int \<Rightarrow> real" where
  "magGet magnitudeMap u = (case magnitudeMap u of None \<Rightarrow> 0 | Some v \<Rightarrow> v)"

definition addMagnitude :: "magnitude_map \<Rightarrow> int \<times> real \<Rightarrow> magnitude_map" where
  "addMagnitude magnitudeMap p =
     (case p of (u, res) \<Rightarrow> magnitudeMap(u \<mapsto> magGet magnitudeMap u + res * res))"

text \<open>Lines 150-156: \<open>for (int i = 1; i <= maxItemId; i++)\<close>.\<close>

definition computeMagnitudes :: "item_users \<Rightarrow> int \<Rightarrow> magnitude_map" where
  "computeMagnitudes itemToUser maxItem =
     foldl (\<lambda>magnitudeMap i. foldl addMagnitude magnitudeMap (itemToUser ! nat i))
       Map.empty [1..maxItem]"

text \<open>\<open>dotAB[uA][uB]\<close> as an rvalue: a fresh \<open>DotData()\<close> when either key is new.\<close>

definition dotInner :: "dot_map \<Rightarrow> int \<Rightarrow> (int \<times> DotData) list" where
  "dotInner dotAB uA = (case map_of dotAB uA of None \<Rightarrow> [] | Some inner \<Rightarrow> inner)"

definition dotOf :: "dot_map \<Rightarrow> int \<Rightarrow> int \<Rightarrow> DotData" where
  "dotOf dotAB uA uB = (case map_of (dotInner dotAB uA) uB of None \<Rightarrow> DotData0 | Some dd \<Rightarrow> dd)"

text \<open>Lines 175-176.\<close>

definition dotAcc :: "dot_map \<Rightarrow> int \<Rightarrow> int \<Rightarrow> real \<Rightarrow> dot_map" where
  "dotAcc dotAB uA uB p =
     (let dd = dotOf dotAB uA uB
      in AList.update uA
           (AList.update uB \<lparr>sumD = sumD dd + p, countD = countD dd + 1\<rparr> (dotInner dotAB uA))
           dotAB)"

text \<open>Lines 163-176: the body of the inner loop for \<open>listU[a]\<close> and \<open>listU[b]\<close>.\<close>

definition accPair :: "int \<times> real \<Rightarrow> dot_map \<Rightarrow> int \<times> real \<Rightarrow> dot_map" where
  "accPair pa dotAB pb =
     (case pa of (uA, rA) \<Rightarrow>
      case pb of (uB, rB) \<Rightarrow>
        if uA > uB then dotAcc dotAB uB uA (rB * rA) else dotAcc dotAB uA uB (rA * rB))"

text \<open>
  Lines 161-178: \<open>a\<close> runs over the positions of \<open>listU\<close> and \<open>b\<close> over the later
  positions, i.e. the head of the list is paired with every later element in order,
  and then the same is done for the rest.
\<close>

fun pairLoop :: "(int \<times> real) list \<Rightarrow> dot_map \<Rightarrow> dot_map" where
  "pairLoop [] dotAB = dotAB"
| "pairLoop (pa # rest) dotAB = pairLoop rest (foldl (accPair pa) dotAB rest)"

definition computeDots :: "item_users \<Rightarrow> int \<Rightarrow> dot_map" where
  "computeDots itemToUser maxItem =
     foldl (\<lambda>dotAB i. pairLoop (itemToUser ! nat i) dotAB) [] [1..maxItem]"

text \<open>
  What the Similarity Engine accumulates, worded as sums, for comparison with the
  loops: the unordered pairs of a list, the contribution of one item list to the
  accumulator keyed \<open>(a, b)\<close>, and a user's squared residual in one item list.
\<close>

fun pairsOf :: "'a list \<Rightarrow> ('a \<times> 'a) list" where
  "pairsOf [] = []"
| "pairsOf (x # xs) = map (Pair x) xs @ pairsOf xs"

definition keyedAs :: "int \<Rightarrow> int \<Rightarrow> (int \<times> real) \<times> (int \<times> real) \<Rightarrow> bool" where
  "keyedAs a b pq = (min (fst (fst pq)) (fst (snd pq)) = a \<and> max (fst (fst pq)) (fst (snd pq)) = b)"

definition coRated :: "(int \<times> real) list \<Rightarrow> int \<Rightarrow> int \<Rightarrow> ((int \<times> real) \<times> (int \<times> real)) list" where
  "coRated listU a b = filter (keyedAs a b) (pairsOf listU)"

definition itemsFrom :: "int \<Rightarrow> item_users \<Rightarrow> int \<Rightarrow> (int \<times> real) list list" where
  "itemsFrom lo itemToUser maxItem = map (\<lambda>i. itemToUser ! nat i) [lo..maxItem]"

definition dotSum :: "(int \<times> real) list list \<Rightarrow> int \<Rightarrow> int \<Rightarrow> real" where
  "dotSum ls a b =
     sum_list (map (\<lambda>listU. sum_list (map (\<lambda>pq. snd (fst pq) * snd (snd pq)) (coRated listU a b))) ls)"

definition coRatingCount :: "(int \<times> real) list list \<Rightarrow> int \<Rightarrow> int \<Rightarrow> int" where
  "coRatingCount ls a b = sum_list (map (\<lambda>listU. int (length (coRated listU a b))) ls)"

definition squaredResiduals :: "(int \<times> real) list list \<Rightarrow> int \<Rightarrow> real" where
  "squaredResiduals ls u =
     sum_list (map (\<lambda>listU. sum_list (map (\<lambda>p. snd p * snd p) (filter (\<lambda>p. fst p = u) listU))) ls)"

subsection \<open>Stage 7: similarity and bounded neighbour queues (lines 22-30, 44-47, 182-228)\<close>

record Similarity =
  userB :: int
  valueS :: real

text \<open>\<open>Similarity::operator<\<close> (lines 27-29).\<close>

definition sim_less :: "Similarity \<Rightarrow> Similarity \<Rightarrow> bool" where
  "sim_less a other = (valueS a < valueS other)"

text \<open>
  \<open>std::priority_queue<Similarity>\<close> is the standard library's max-priority queue
  under \<open>operator<\<close>: \<open>top()\<close> is an entry that no other entry exceeds, \<open>pop()\<close>
  removes that entry, and which of several entries of equal value is on top is left
  open by the language standard. The model keeps the underlying array in
  non-increasing order of value (such an array is a binary max-heap), a pushed entry
  going behind the entries that are not smaller than it; then \<open>top\<close> is the head and
  \<open>pop\<close> drops it. \<open>pop\<close> and \<open>top\<close> are only called on non-empty queues.
  Which value is popped is the same for every implementation of the queue; among
  entries of equal value a binary heap may pop in another order than this list.
\<close>

type_synonym neighbor_queue = "Similarity list"

fun pq_push :: "neighbor_queue \<Rightarrow> Similarity \<Rightarrow> neighbor_queue" where
  "pq_push [] e = [e]"
| "pq_push (x # pq) e = (if sim_less x e then e # x # pq else x # pq_push pq e)"

definition pq_top :: "neighbor_queue \<Rightarrow> Similarity" where
  "pq_top pq = hd pq"

definition pq_pop :: "neighbor_queue \<Rightarrow> neighbor_queue" where
  "pq_pop pq = tl pq"

text \<open>Lines 213-216 (and 221-224): push, then pop when the size exceeds \<open>K\<close>.\<close>

definition boundedPush :: "neighbor_queue \<Rightarrow> Similarity \<Rightarrow> neighbor_queue" where
  "boundedPush pq e = (let pq1 = pq_push pq e in if length pq1 > K then pq_pop pq1 else pq1)"

type_synonym top_neighbors = "int \<rightharpoonup> neighbor_queue"

text \<open>\<open>topNeighbors[u]\<close>: the queue of \<open>u\<close>, a new empty one when \<open>u\<close> has none.\<close>

definition queueOf :: "top_neighbors \<Rightarrow> int \<Rightarrow> neighbor_queue" where
  "queueOf topNeighbors u = (case topNeighbors u of None \<Rightarrow> [] | Some pq \<Rightarrow> pq)"

definition offer :: "top_neighbors \<Rightarrow> int \<times> Similarity \<Rightarrow> top_neighbors" where
  "offer topNeighbors c = topNeighbors(fst c \<mapsto> boundedPush (queueOf topNeighbors (fst c)) (snd c))"

text \<open>Lines 44-47.\<close>

definition cosineSimilarity :: "real \<Rightarrow> real \<Rightarrow> real \<Rightarrow> real" where
  "cosineSimilarity dotProduct magA magB =
     (if magA = 0 \<or> magB = 0 then 0 else dotProduct / (sqrt magA * sqrt magB))"

text \<open>
  Lines 190-207 for one accumulated pair: \<open>None\<close> is the \<open>continue\<close> of line 196,
  otherwise the value of \<open>finalSim\<close>. \<open>pow(fabs(rawSim), AMP_FACTOR)\<close> is \<open>powr\<close>.
\<close>

definition finalSimilarity :: "DotData \<Rightarrow> real \<Rightarrow> real \<Rightarrow> real option" where
  "finalSimilarity dd magA magB =
     (let dotVal = sumD dd;
          coCount = countD dd;
          rawSim = cosineSimilarity dotVal magA magB
      in if rawSim \<le> 0 then None
         else
           let factor = real_of_int coCount / (real_of_int coCount + SHRINK);
               ampSim = \<bar>rawSim\<bar> powr AMP_FACTOR;
               ampSim = (if rawSim < 0 then - ampSim else ampSim)
           in Some (ampSim * factor))"

text \<open>The body of the inner loop (lines 188-227) for the entry \<open>mapB\<close> of \<open>dotAB[uA]\<close>.\<close>

definition neighborStep ::
  "magnitude_map \<Rightarrow> int \<Rightarrow> top_neighbors \<Rightarrow> int \<times> DotData \<Rightarrow> top_neighbors" where
  "neighborStep magnitudeMap uA topNeighbors mapB =
     (case mapB of (uB, dd) \<Rightarrow>
        (case finalSimilarity dd (magGet magnitudeMap uA) (magGet magnitudeMap uB) of
           None \<Rightarrow> topNeighbors
         | Some finalSim \<Rightarrow>
             if finalSim > 0
             then offer (offer topNeighbors (uA, \<lparr>userB = uB, valueS = finalSim\<rparr>))
                    (uB, \<lparr>userB = uA, valueS = finalSim\<rparr>)
             else topNeighbors))"

definition buildTopNeighbors :: "dot_map \<Rightarrow> magnitude_map \<Rightarrow> top_neighbors" where
  "buildTopNeighbors dotAB magnitudeMap =
     foldl (\<lambda>topNeighbors mapA. foldl (neighborStep magnitudeMap (fst mapA)) topNeighbors (snd mapA))
       Map.empty dotAB"

text \<open>
  The candidates the loop registers, listed in the order of registration as pairs
  (owner of the queue, entry pushed): what each user is offered before any eviction.
\<close>

definition pairCandidates :: "magnitude_map \<Rightarrow> int \<Rightarrow> int \<times> DotData \<Rightarrow> (int \<times> Similarity) list" where
  "pairCandidates magnitudeMap uA mapB =
     (case mapB of (uB, dd) \<Rightarrow>
        (case finalSimilarity dd (magGet magnitudeMap uA) (magGet magnitudeMap uB) of
           None \<Rightarrow> []
         | Some finalSim \<Rightarrow>
             if finalSim > 0
             then [(uA, \<lparr>userB = uB, valueS = finalSim\<rparr>), (uB, \<lparr>userB = uA, valueS = finalSim\<rparr>)]
             else []))"

definition candidates :: "dot_map \<Rightarrow> magnitude_map \<Rightarrow> (int \<times> Similarity) list" where
  "candidates dotAB magnitudeMap =
     concat (map (\<lambda>mapA. concat (map (pairCandidates magnitudeMap (fst mapA)) (snd mapA))) dotAB)"

text \<open>Renaming the neighbour ids of a queue, the similarity values untouched.\<close>

definition renameNeighbor :: "(int \<Rightarrow> int) \<Rightarrow> Similarity \<Rightarrow> Similarity" where
  "renameNeighbor f e = e\<lparr>userB := f (userB e)\<rparr>"

text \<open>The candidate entry for neighbour \<open>n\<close> with similarity \<open>v\<close>, to write down queues.\<close>

definition candidateOf :: "real \<Rightarrow> int \<Rightarrow> Similarity" where
  "candidateOf v n = \<lparr>userB = n, valueS = v\<rparr>"

subsection \<open>The trained model (all of lines 56-228)\<close>

record model = ingest_state +
  globalMean :: real
  userBias :: user_bias
  itemBias :: item_bias
  topNeighbors :: top_neighbors

definition fittedBiases :: "rating_record list \<Rightarrow> user_bias \<times> item_bias" where
  "fittedBiases recs =
     (let st = ingest recs
      in fitBiases (globalMeanOf st) (ratingsByUsers st)
           (initUserBias (ratingsByUsers st), initItemBias (maxItemId st)))"

definition residuals :: "rating_record list \<Rightarrow> user_bias \<times> item_users" where
  "residuals recs =
     (let st = ingest recs
      in buildItemToUser (globalMeanOf st) (snd (fittedBiases recs)) (ratingsByUsers st)
           (fst (fittedBiases recs)) (maxItemId st))"

definition magnitudes :: "rating_record list \<Rightarrow> magnitude_map" where
  "magnitudes recs = computeMagnitudes (snd (residuals recs)) (maxItemId (ingest recs))"

definition dots :: "rating_record list \<Rightarrow> dot_map" where
  "dots recs = computeDots (snd (residuals recs)) (maxItemId (ingest recs))"

definition trainModel :: "rating_record list \<Rightarrow> model" where
  "trainModel recs =
     \<lparr>ratingsByUsers = ratingsByUsers (ingest recs),
      globalSum = globalSum (ingest recs),
      globalCount = globalCount (ingest recs),
      maxUserId = maxUserId (ingest recs),
      maxItemId = maxItemId (ingest recs),
      globalMean = globalMeanOf (ingest recs),
      userBias = fst (residuals recs),
      itemBias = snd (fittedBiases recs),
      topNeighbors = buildTopNeighbors (dots recs) (magnitudes recs)\<rparr>"

text \<open>
  A training record with a negative item id makes the fitting loop index
  \<open>itemBias\<close> before its first element (line 119); that is undefined behaviour in
  C++, and every stored record is visited in the first pass. An item id equal to
  \<open>INT_MAX = 2147483647\<close> makes \<open>maxItemId + 1\<close> overflow where the vectors are
  sized (lines 98 and 133). The model has no result for such streams. (Negative user
  ids are ordinary hash-map keys.)
\<close>

definition addressable :: "rating_record list \<Rightarrow> bool" where
  "addressable recs = list_all (\<lambda>rec. 0 \<le> fst (snd rec) \<and> fst (snd rec) < 2147483647) recs"

definition train :: "rating_record list \<Rightarrow> model option" where
  "train recs = (if addressable recs then Some (trainModel recs) else None)"

subsection \<open>Stage 8: answering queries (lines 231-281)\<close>

text \<open>
  The effect of evaluating \<open>ratingsByUsers[neighbor]\<close> on the store: an absent key
  is inserted with an empty inner map.
\<close>

definition touchUser :: "rating_store \<Rightarrow> int \<Rightarrow> rating_store" where
  "touchUser store u = (case map_of store u of None \<Rightarrow> store @ [(u, [])] | Some m \<Rightarrow> store)"

text \<open>Lines 238-244.\<close>

definition queryBaseline :: "model \<Rightarrow> int \<Rightarrow> int \<Rightarrow> real" where
  "queryBaseline m userId itemId =
     (let baseline = globalMean m;
          baseline = (case userBias m userId of None \<Rightarrow> baseline | Some b \<Rightarrow> baseline + b);
          baseline = (if itemId \<ge> 1 \<and> itemId \<le> maxItemId m
                      then baseline + itemBias m ! nat itemId else baseline)
      in baseline)"

text \<open>
  Lines 253-272: the loop over the copy of the user's queue, \<open>top\<close> then \<open>pop\<close>
  until it is empty; \<open>pq_top\<close> of a non-empty queue is the head of the list and
  \<open>pq_pop\<close> leaves its tail, so the loop is the recursion over the list. The model is
  threaded through, because \<open>ratingsByUsers[neighbor]\<close> and \<open>userBias[neighbor]\<close>
  are \<open>operator[]\<close> accesses, which insert a key that is absent.
\<close>

fun drain :: "int \<Rightarrow> model \<Rightarrow> neighbor_queue \<Rightarrow> real \<times> real \<Rightarrow> (real \<times> real) \<times> model" where
  "drain itemId m [] acc = (acc, m)"
| "drain itemId m (topSim # pq) (weightedSum, sumOfWeights) =
     (let neighbor = userB topSim;
          sim = valueS topSim;
          m1 = m\<lparr>ratingsByUsers := touchUser (ratingsByUsers m) neighbor\<rparr>
      in (case map_of (ratingsOf (ratingsByUsers m1) neighbor) itemId of
            None \<Rightarrow> drain itemId m1 pq (weightedSum, sumOfWeights)
          | Some nr \<Rightarrow>
              (let nb = globalMean m1 + ubGet (userBias m1) neighbor;
                   m2 = m1\<lparr>userBias := ubTouch (userBias m1) neighbor\<rparr>;
                   nb = (if itemId \<ge> 1 \<and> itemId \<le> maxItemId m2
                         then nb + itemBias m2 ! nat itemId else nb);
                   residual = nr - nb
               in drain itemId m2 pq (weightedSum + residual * sim, sumOfWeights + \<bar>sim\<bar>))))"

text \<open>One query line: the prediction written, and the model afterwards.\<close>

definition query :: "model \<Rightarrow> int \<times> int \<Rightarrow> real \<times> model" where
  "query m q =
     (case q of (userId, itemId) \<Rightarrow>
        let baseline = queryBaseline m userId itemId;
            res = (case topNeighbors m userId of
                     None \<Rightarrow> ((0, 0), m)
                   | Some pq \<Rightarrow> drain itemId m pq (0, 0));
            weightedSum = fst (fst res);
            sumOfWeights = snd (fst res);
            prediction = (if sumOfWeights > 0 then baseline + weightedSum / sumOfWeights
                          else baseline)
        in (prediction, snd res))"

fun runQueries :: "model \<Rightarrow> (int \<times> int) list \<Rightarrow> real list \<times> model" where
  "runQueries m [] = ([], m)"
| "runQueries m (q # qs) =
     (let r1 = query m q; r2 = runQueries (snd r1) qs in (fst r1 # fst r2, snd r2))"

text \<open>The whole run: the predictions written for a training stream and a query stream.\<close>

definition predictions :: "rating_record list \<Rightarrow> (int \<times> int) list \<Rightarrow> real list option" where
  "predictions recs queries =
     (case train recs of None \<Rightarrow> None | Some m \<Rightarrow> Some (fst (runQueries m queries)))"

subsection \<open>Invariants of the stages\<close>

text \<open>
  Every user id that occurs in the residual lists, in the pairwise accumulator or in a
  neighbour queue is drawn from a set \<open>U\<close> of users (in the end: the users of the
  training stream).
\<close>

definition usersWithin :: "int set \<Rightarrow> item_users \<Rightarrow> bool" where
  "usersWithin U itemToUser = (\<forall>listU\<in>set itemToUser. fst ` set listU \<subseteq> U)"

definition dotWithin :: "int set \<Rightarrow> dot_map \<Rightarrow> bool" where
  "dotWithin U dotAB = (\<forall>mapA\<in>set dotAB. fst mapA \<in> U \<and> fst ` set (snd mapA) \<subseteq> U)"

definition neighborsWithin :: "int set \<Rightarrow> top_neighbors \<Rightarrow> bool" where
  "neighborsWithin U tn = (\<forall>u pq. tn u = Some pq \<longrightarrow> u \<in> U \<and> userB ` set pq \<subseteq> U)"

definition trainingUsers :: "rating_record list \<Rightarrow> int set" where
  "trainingUsers recs = fst ` set recs"

section \<open>Properties\<close>

subsection \<open>Ingestion totals\<close>

lemma ingest_fold_sum:
  "globalSum (foldl ingest_step st recs) = globalSum st + sum_list (map (\<lambda>(u, i, r). r) recs)"
  by (induction recs arbitrary: st) (auto simp: ingest_step_def split: prod.splits)

lemma ingest_fold_count:
  "globalCount (foldl ingest_step st recs) = globalCount st + int (length recs)"
  by (induction recs arbitrary: st) (auto simp: ingest_step_def split: prod.splits)

text \<open>
  C3 (as stated, refuted). The training stream \<open>(1, 1, 1.0), (1, 1, 5.0)\<close> rates the
  same (user, item) pair twice. The store retains only the rating 5, whose mean is 5,
  but the fitted global mean is 3: the overwritten rating still sits in
  \<open>globalSum\<close> and \<open>globalCount\<close>.
\<close>

theorem C3_overwritten_rating_counts:
  "ratingsByUsers (ingest [(1, 1, 1), (1, 1, 5)]) = [(1, [(1, 5)])]
   \<and> retainedMean (ratingsByUsers (ingest [(1, 1, 1), (1, 1, 5)])) = 5
   \<and> globalMeanOf (ingest [(1, 1, 1), (1, 1, 5)]) = 3"
  by (simp add: ingest_def ingest_init_def ingest_step_def put_rating_def ratingsOf_def
      retainedMean_def retainedRatings_def globalMeanOf_def)

text \<open>
  C3 (amended). The global mean is the arithmetic mean of the ratings of all
  training records of the stream, every record counted once whether or not a later
  record overwrites it in the store, and 3.5 when the stream has no record.
\<close>

theorem C3_globalMean_all_records:
  "globalMeanOf (ingest recs) =
     (if recs = [] then 7 / 2
      else sum_list (map (\<lambda>(u, i, r). r) recs) / real (length recs))"
  by (simp add: globalMeanOf_def ingest_def ingest_fold_sum ingest_fold_count ingest_init_def)

subsection \<open>Bias fitting: the loops against the worded pass\<close>

lemma biasUpdate_sgdStep: "biasUpdate gm u st (i, r) = sgdStep gm st (u, i, r)"
  by (simp add: biasUpdate_def sgdStep_def sgdError_def ALPHA_def REG_def Let_def split: prod.splits)

lemma sgdPass_append: "sgdPass gm (xs @ ys) st = sgdPass gm ys (sgdPass gm xs st)"
  by (induction xs arbitrary: st) simp_all

lemma user_loop_sgdPass:
  "foldl (biasUpdate gm u) st m = sgdPass gm (map (\<lambda>(i, r). (u, i, r)) m) st"
  by (induction m arbitrary: st) (auto simp: biasUpdate_sgdStep)

lemma biasPass_sgdPass: "biasPass gm store st = sgdPass gm (storedRatings store) st"
  unfolding biasPass_def storedRatings_def
  by (induction store arbitrary: st) (auto simp: sgdPass_append user_loop_sgdPass)

text \<open>
  C4. The fitting loop is exactly 8 passes; each pass handles the stored ratings in
  stored order (users in store order, each user's ratings in order), and for each
  rating \<open>r\<close> of user \<open>u\<close> and item \<open>i\<close> performs \<open>sgdStep\<close>: the error
  \<open>r - (globalMean + userBias[u] + itemBias[i])\<close> is taken from the current biases,
  \<open>userBias[u]\<close> grows by \<open>0.01 * (error - 0.02 * userBias[u])\<close> and \<open>itemBias[i]\<close>
  by \<open>0.01 * (error - 0.02 * itemBias[i])\<close>, both from the values before the step;
  \<open>sgdPass\<close> hands the updated biases to the next rating of the same pass.
\<close>

theorem C4_fit_is_eight_sgd_passes:
  "fitBiases gm store st = (sgdPass gm (storedRatings store) ^^ 8) st"
proof -
  have "biasPass gm store = sgdPass gm (storedRatings store)"
    by (rule ext) (rule biasPass_sgdPass)
  then show ?thesis by (simp add: fitBiases_def NUM_ITERS_def)
qed

subsection \<open>Two training streams that rate item id 0\<close>

text \<open>
  The fitted biases of two small streams, bounded pass by pass: after \<open>n \<le> 8\<close>
  passes every bias lies within \<open>n / 50\<close> of 0, which settles the signs needed
  below without computing the 8 passes digit by digit.
\<close>

lemma step_eval:
  "biasUpdate gm u (ub, ib) (i, r) =
     (ub(u \<mapsto> ubGet ub u + (r - (gm + ubGet ub u + ib ! nat i) - ubGet ub u / 50) / 100),
      ib[nat i := ib ! nat i + (r - (gm + ubGet ub u + ib ! nat i) - ib ! nat i / 50) / 100])"
  by (simp add: biasUpdate_def Let_def ALPHA_def REG_def)

lemma ingest_item0_pair: "ingest [(1, 0, 4), (2, 0, 2)]
    = \<lparr>ratingsByUsers = [(1, [(0, 4)]), (2, [(0, 2)])], globalSum = 6, globalCount = 2,
       maxUserId = 2, maxItemId = 0\<rparr>"
  by (simp add: ingest_def ingest_init_def ingest_step_def put_rating_def ratingsOf_def)

lemma pass_item0_pair:
  "biasPass 3 [(1, [(0, 4)]), (2, [(0, 2)])] ([1 \<mapsto> a, 2 \<mapsto> b], [c])
     = ([1 \<mapsto> a + (4 - (3 + a + c) - a / 50) / 100,
         2 \<mapsto> b + (2 - (3 + b + (c + (4 - (3 + a + c) - c / 50) / 100)) - b / 50) / 100],
        [c + (4 - (3 + a + c) - c / 50) / 100
           + (2 - (3 + b + (c + (4 - (3 + a + c) - c / 50) / 100))
                - (c + (4 - (3 + a + c) - c / 50) / 100) / 50) / 100])"
  by (simp add: biasPass_def step_eval ubGet_def fun_upd_twist)

lemma bounds_item0_pair:
  fixes a b c t :: real
  assumes "0 \<le> a" "a \<le> t / 50" "- (t / 50) \<le> b" "b \<le> 0" "- (t / 50) \<le> c" "c \<le> t / 50"
    and "0 \<le> t" "t \<le> 7"
  shows "0 \<le> a + (4 - (3 + a + c) - a / 50) / 100"
    and "a + (4 - (3 + a + c) - a / 50) / 100 \<le> (t + 1) / 50"
    and "- ((t + 1) / 50) \<le> b + (2 - (3 + b + (c + (4 - (3 + a + c) - c / 50) / 100)) - b / 50) / 100"
    and "b + (2 - (3 + b + (c + (4 - (3 + a + c) - c / 50) / 100)) - b / 50) / 100 \<le> 0"
    and "- ((t + 1) / 50) \<le> c + (4 - (3 + a + c) - c / 50) / 100
           + (2 - (3 + b + (c + (4 - (3 + a + c) - c / 50) / 100))
                - (c + (4 - (3 + a + c) - c / 50) / 100) / 50) / 100"
    and "c + (4 - (3 + a + c) - c / 50) / 100
           + (2 - (3 + b + (c + (4 - (3 + a + c) - c / 50) / 100))
                - (c + (4 - (3 + a + c) - c / 50) / 100) / 50) / 100 \<le> (t + 1) / 50"
  using assms by argo+

lemma passes_item0_pair:
  "n \<le> 8 \<Longrightarrow>
   \<exists>a b c. (biasPass 3 [(1, [(0, 4)]), (2, [(0, 2)])] ^^ n) ([1 \<mapsto> 0, 2 \<mapsto> 0], [0])
                = ([1 \<mapsto> a, 2 \<mapsto> b], [c])
       \<and> 0 \<le> a \<and> a \<le> real n / 50 \<and> - (real n / 50) \<le> b \<and> b \<le> 0
       \<and> - (real n / 50) \<le> c \<and> c \<le> real n / 50"
proof (induction n)
  case 0
  show ?case by (intro exI [of _ 0]) simp
next
  case (Suc n)
  have "n \<le> 8" using Suc.prems by simp
  from Suc.IH [OF this] obtain a b c where
    eq: "(biasPass 3 [(1, [(0, 4)]), (2, [(0, 2)])] ^^ n) ([1 \<mapsto> 0, 2 \<mapsto> 0], [0])
           = ([1 \<mapsto> a, 2 \<mapsto> b], [c])"
    and bd: "0 \<le> a" "a \<le> real n / 50" "- (real n / 50) \<le> b" "b \<le> 0"
      "- (real n / 50) \<le> c" "c \<le> real n / 50"
    by blast
  have n7: "0 \<le> real n" "real n \<le> 7" using Suc.prems by simp_all
  note nb = bounds_item0_pair [OF bd n7]
  have "(biasPass 3 [(1, [(0, 4)]), (2, [(0, 2)])] ^^ Suc n) ([1 \<mapsto> 0, 2 \<mapsto> 0], [0])
          = biasPass 3 [(1, [(0, 4)]), (2, [(0, 2)])] ([1 \<mapsto> a, 2 \<mapsto> b], [c])"
    by (simp only: funpow.simps o_apply eq)
  moreover have "real (Suc n) = real n + 1" by simp
  ultimately show ?case
    unfolding pass_item0_pair using nb by metis
qed

lemma fitted_item0_pair:
  "\<exists>a b c. fittedBiases [(1, 0, 4), (2, 0, 2)] = ([1 \<mapsto> a, 2 \<mapsto> b], [c]) \<and> a + c < 1"
proof -
  have init: "(initUserBias [(1, [(0, 4)]), (2, [(0, 2)])], initItemBias 0) = ([1 \<mapsto> 0, 2 \<mapsto> 0], [0])"
    by (simp add: initUserBias_def initItemBias_def)
  from passes_item0_pair [of 8] obtain a b c where
    eq: "(biasPass 3 [(1, [(0, 4)]), (2, [(0, 2)])] ^^ 8) ([1 \<mapsto> 0, 2 \<mapsto> 0], [0])
           = ([1 \<mapsto> a, 2 \<mapsto> b], [c])" and "a \<le> real 8 / 50" "c \<le> real 8 / 50"
    by blast
  then have "a + c < 1" by simp
  moreover have "fittedBiases [(1, 0, 4), (2, 0, 2)] = ([1 \<mapsto> a, 2 \<mapsto> b], [c])"
    by (simp add: fittedBiases_def ingest_item0_pair globalMeanOf_def fitBiases_def NUM_ITERS_def init eq)
  ultimately show ?thesis by blast
qed

lemma ingest_item0_single: "ingest [(1, 0, 5), (2, 1, 1)]
    = \<lparr>ratingsByUsers = [(1, [(0, 5)]), (2, [(1, 1)])], globalSum = 6, globalCount = 2,
       maxUserId = 2, maxItemId = 1\<rparr>"
  by (simp add: ingest_def ingest_init_def ingest_step_def put_rating_def ratingsOf_def)

lemma pass_item0_single:
  "biasPass 3 [(1, [(0, 5)]), (2, [(1, 1)])] ([1 \<mapsto> a, 2 \<mapsto> b], [c, d])
     = ([1 \<mapsto> a + (5 - (3 + a + c) - a / 50) / 100, 2 \<mapsto> b + (1 - (3 + b + d) - b / 50) / 100],
        [c + (5 - (3 + a + c) - c / 50) / 100, d + (1 - (3 + b + d) - d / 50) / 100])"
  by (simp add: biasPass_def step_eval ubGet_def fun_upd_twist)

lemma bounds_item0_single:
  fixes a c t :: real
  assumes "0 \<le> a" "a \<le> t / 50" "t / 200 \<le> c" "c \<le> t / 50" "t \<le> 7"
  shows "0 \<le> a + (5 - (3 + a + c) - a / 50) / 100"
    and "a + (5 - (3 + a + c) - a / 50) / 100 \<le> (t + 1) / 50"
    and "(t + 1) / 200 \<le> c + (5 - (3 + a + c) - c / 50) / 100"
    and "c + (5 - (3 + a + c) - c / 50) / 100 \<le> (t + 1) / 50"
  using assms by argo+

lemma passes_item0_single:
  "n \<le> 8 \<Longrightarrow>
   \<exists>a b c d. (biasPass 3 [(1, [(0, 5)]), (2, [(1, 1)])] ^^ n) ([1 \<mapsto> 0, 2 \<mapsto> 0], [0, 0])
                = ([1 \<mapsto> a, 2 \<mapsto> b], [c, d])
       \<and> 0 \<le> a \<and> a \<le> real n / 50 \<and> real n / 200 \<le> c \<and> c \<le> real n / 50"
proof (induction n)
  case 0
  show ?case by (intro exI [of _ 0]) simp
next
  case (Suc n)
  have "n \<le> 8" using Suc.prems by simp
  from Suc.IH [OF this] obtain a b c d where
    eq: "(biasPass 3 [(1, [(0, 5)]), (2, [(1, 1)])] ^^ n) ([1 \<mapsto> 0, 2 \<mapsto> 0], [0, 0])
           = ([1 \<mapsto> a, 2 \<mapsto> b], [c, d])"
    and bd: "0 \<le> a" "a \<le> real n / 50" "real n / 200 \<le> c" "c \<le> real n / 50"
    by blast
  have n7: "real n \<le> 7" using Suc.prems by simp
  note nb = bounds_item0_single [OF bd n7]
  have "(biasPass 3 [(1, [(0, 5)]), (2, [(1, 1)])] ^^ Suc n) ([1 \<mapsto> 0, 2 \<mapsto> 0], [0, 0])
          = biasPass 3 [(1, [(0, 5)]), (2, [(1, 1)])] ([1 \<mapsto> a, 2 \<mapsto> b], [c, d])"
    by (simp only: funpow.simps o_apply eq)
  moreover have "real (Suc n) = real n + 1" by simp
  ultimately show ?case
    unfolding pass_item0_single using nb by metis
qed

subsection \<open>Similarity accumulation\<close>

lemma dotOf_dotAcc:
  "dotOf (dotAcc d a b p) a' b' =
     (if a' = a \<and> b' = b then \<lparr>sumD = sumD (dotOf d a b) + p, countD = countD (dotOf d a b) + 1\<rparr>
      else dotOf d a' b')"
  by (auto simp: dotAcc_def dotOf_def dotInner_def update_conv Let_def split: option.splits)

lemma dot_accPair:
  "sumD (dotOf (accPair pa d pb) a b) =
     sumD (dotOf d a b) + (if keyedAs a b (pa, pb) then snd pa * snd pb else 0)"
  "countD (dotOf (accPair pa d pb) a b) =
     countD (dotOf d a b) + (if keyedAs a b (pa, pb) then 1 else 0)"
  by (auto simp: accPair_def keyedAs_def dotOf_dotAcc min_def max_def split: prod.splits)

lemma dot_inner_loop:
  "sumD (dotOf (foldl (accPair pa) d rest) a b) =
     sumD (dotOf d a b)
     + sum_list (map (\<lambda>pq. snd (fst pq) * snd (snd pq)) (filter (keyedAs a b) (map (Pair pa) rest)))"
  "countD (dotOf (foldl (accPair pa) d rest) a b) =
     countD (dotOf d a b) + int (length (filter (keyedAs a b) (map (Pair pa) rest)))"
  by (induction rest arbitrary: d) (simp_all add: dot_accPair)

lemma dot_pairLoop:
  "sumD (dotOf (pairLoop listU d) a b) =
     sumD (dotOf d a b) + sum_list (map (\<lambda>pq. snd (fst pq) * snd (snd pq)) (coRated listU a b))"
  "countD (dotOf (pairLoop listU d) a b) =
     countD (dotOf d a b) + int (length (coRated listU a b))"
  by (induction listU arbitrary: d) (simp_all add: dot_inner_loop coRated_def)

lemma dot_items_loop:
  "sumD (dotOf (foldl (\<lambda>d l. pairLoop l d) d ls) a b) = sumD (dotOf d a b) + dotSum ls a b"
  "countD (dotOf (foldl (\<lambda>d l. pairLoop l d) d ls) a b) = countD (dotOf d a b) + coRatingCount ls a b"
  by (induction ls arbitrary: d) (simp_all add: dot_pairLoop dotSum_def coRatingCount_def)

lemma computeDots_alt:
  "computeDots itu M = foldl (\<lambda>d l. pairLoop l d) [] (itemsFrom 1 itu M)"
  by (simp add: computeDots_def itemsFrom_def foldl_map)

lemma mag_addMagnitude:
  "magGet (addMagnitude mm p) u = magGet mm u + (if fst p = u then snd p * snd p else 0)"
  by (auto simp: addMagnitude_def magGet_def split: prod.splits)

lemma mag_list_loop:
  "magGet (foldl addMagnitude mm listU) u =
     magGet mm u + sum_list (map (\<lambda>p. snd p * snd p) (filter (\<lambda>p. fst p = u) listU))"
  by (induction listU arbitrary: mm) (simp_all add: mag_addMagnitude)

lemma mag_items_loop:
  "magGet (foldl (\<lambda>mm l. foldl addMagnitude mm l) mm ls) u = magGet mm u + squaredResiduals ls u"
  by (induction ls arbitrary: mm) (simp_all add: mag_list_loop squaredResiduals_def)

lemma computeMagnitudes_alt:
  "computeMagnitudes itu M = foldl (\<lambda>mm l. foldl addMagnitude mm l) Map.empty (itemsFrom 1 itu M)"
  by (simp add: computeMagnitudes_def itemsFrom_def foldl_map)

text \<open>
  C1 (as stated, refuted). In the training stream \<open>(1, 0, 4.0), (2, 0, 2.0)\<close> users
  1 and 2 both rate item 0, and \<open>maxItemId\<close> is 0, so item 0 lies in the observed
  range. The residual list of item 0 holds both users, and summing over the items
  \<open>0..maxItemId\<close> as the claim does gives the pair (1, 2) the co-rating count 1 and
  user 1 a strictly positive sum of squared residuals. The code leaves the accumulator
  of (1, 2) untouched (count 0) and gives user 1 no magnitude at all.
\<close>

theorem C1_item_0_is_skipped:
  "addressable [(1, 0, 4), (2, 0, 2)]
   \<and> maxItemId (ingest [(1, 0, 4), (2, 0, 2)]) = 0
   \<and> map fst (snd (residuals [(1, 0, 4), (2, 0, 2)]) ! 0) = [1, 2]
   \<and> countD (dotOf (dots [(1, 0, 4), (2, 0, 2)]) 1 2) = 0
   \<and> coRatingCount (itemsFrom 0 (snd (residuals [(1, 0, 4), (2, 0, 2)])) 0) 1 2 = 1
   \<and> magGet (magnitudes [(1, 0, 4), (2, 0, 2)]) 1 = 0
   \<and> 0 < squaredResiduals (itemsFrom 0 (snd (residuals [(1, 0, 4), (2, 0, 2)])) 0) 1"
proof -
  from fitted_item0_pair obtain a b c where
    fb: "fittedBiases [(1, 0, 4), (2, 0, 2)] = ([1 \<mapsto> a, 2 \<mapsto> b], [c])" and ac: "a + c < 1"
    by blast
  have itu: "snd (residuals [(1, 0, 4), (2, 0, 2)]) = [[(1, 4 - (3 + a + c)), (2, 2 - (3 + b + c))]]"
    by (simp add: residuals_def ingest_item0_pair globalMeanOf_def buildItemToUser_def
        projectRating_def Let_def fb ubGet_def ubTouch_def)
  have d: "dots [(1, 0, 4), (2, 0, 2)] = []" "magnitudes [(1, 0, 4), (2, 0, 2)] = Map.empty"
    by (simp_all add: dots_def computeDots_def magnitudes_def computeMagnitudes_def ingest_item0_pair)
  have c: "coRatingCount (itemsFrom 0 (snd (residuals [(1, 0, 4), (2, 0, 2)])) 0) 1 2 = 1"
    by (simp add: coRatingCount_def itemsFrom_def itu coRated_def keyedAs_def)
  have "0 < (4 - (3 + a + c)) * (4 - (3 + a + c))"
    using ac by (intro mult_pos_pos) simp_all
  then have s: "0 < squaredResiduals (itemsFrom 0 (snd (residuals [(1, 0, 4), (2, 0, 2)])) 0) 1"
    by (simp add: squaredResiduals_def itemsFrom_def itu)
  show ?thesis
    using c s by (simp add: d addressable_def ingest_item0_pair itu dotOf_def dotInner_def
        DotData0_def magGet_def)
qed

text \<open>
  C1 (amended). For every item id in \<open>1..maxItemId\<close> and every unordered pair of
  users in that item's (user, residual) list, the similarity stage adds
  residualA * residualB to the accumulator keyed by (min(uA,uB), max(uA,uB)) and 1 to
  its co-rating count, and a user's magnitude is the sum of the squared residuals over
  the items with id in \<open>1..maxItemId\<close> that the user rated. Both loops start at item
  id 1: the list of item id 0 enters neither.
\<close>

theorem C1_accumulation_from_item_1:
  "sumD (dotOf (computeDots itu M) a b) = dotSum (itemsFrom 1 itu M) a b
   \<and> countD (dotOf (computeDots itu M) a b) = coRatingCount (itemsFrom 1 itu M) a b
   \<and> magGet (computeMagnitudes itu M) u = squaredResiduals (itemsFrom 1 itu M) u"
proof -
  have e: "dotOf [] a b = DotData0" "magGet Map.empty u = 0"
    by (simp_all add: dotOf_def dotInner_def magGet_def)
  show ?thesis
    by (simp add: computeDots_alt computeMagnitudes_alt dot_items_loop mag_items_loop e
        DotData0_def)
qed

subsection \<open>The bounded neighbour queue\<close>

lemma pq_top_pop: "pq_top (x # pq) = x" "pq_pop (x # pq) = pq"
  by (simp_all add: pq_top_def pq_pop_def)

lemma length_pq_push: "length (pq_push pq e) = Suc (length pq)"
  by (induction pq) simp_all

lemma set_pq_push: "set (pq_push pq e) = insert e (set pq)"
  by (induction pq) auto

lemma boundedPush_length: "length pq \<le> K \<Longrightarrow> length (boundedPush pq e) \<le> K"
  by (simp add: boundedPush_def pq_pop_def length_pq_push Let_def)

lemma set_boundedPush: "set (boundedPush pq e) \<subseteq> insert e (set pq)"
proof -
  have "set (tl (pq_push pq e)) \<subseteq> set (pq_push pq e)"
    by (cases "pq_push pq e") auto
  then show ?thesis
    by (auto simp: boundedPush_def pq_pop_def Let_def set_pq_push)
qed

lemma sim_less_rename: "sim_less (renameNeighbor f a) (renameNeighbor g b) = sim_less a b"
  by (simp add: sim_less_def renameNeighbor_def)

lemma pq_push_rename:
  "pq_push (map (renameNeighbor f) pq) (renameNeighbor f e) = map (renameNeighbor f) (pq_push pq e)"
  by (induction pq) (simp_all add: sim_less_rename)

lemma pq_push_tied: "\<forall>x\<in>set pq. \<not> sim_less x e \<Longrightarrow> pq_push pq e = pq @ [e]"
  by (induction pq) simp_all

lemma fill_tied:
  "\<forall>x\<in>set (pq @ es). valueS x = v \<Longrightarrow> length (pq @ es) \<le> K \<Longrightarrow> foldl boundedPush pq es = pq @ es"
proof (induction es arbitrary: pq)
  case Nil
  then show ?case by simp
next
  case (Cons e es)
  have "pq_push pq e = pq @ [e]"
    using Cons.prems(1) by (intro pq_push_tied) (simp add: sim_less_def)
  then have "boundedPush pq e = pq @ [e]"
    using Cons.prems(2) by (simp add: boundedPush_def Let_def)
  then show ?case
    using Cons.IH [of "pq @ [e]"] Cons.prems by simp
qed

lemma boundedPush_full_tied:
  "\<forall>x\<in>set pq. \<not> sim_less x e \<Longrightarrow> length pq = K \<Longrightarrow> boundedPush pq e = tl (pq @ [e])"
  by (simp add: boundedPush_def Let_def pq_push_tied pq_pop_def)

lemma boundedPush_full_greatest:
  "pq \<noteq> [] \<Longrightarrow> sim_less (hd pq) e \<Longrightarrow> length pq = K \<Longrightarrow> boundedPush pq e = pq"
  by (cases pq) (simp_all add: boundedPush_def Let_def pq_pop_def)

lemma tied_overflow:
  assumes "\<forall>x\<in>set (es @ [e]). valueS x = v" and "length es = K"
  shows "foldl boundedPush [] (es @ [e]) = tl es @ [e]"
proof -
  have "foldl boundedPush [] es = es"
    using assms fill_tied [of "[]" es v] by simp
  moreover have "boundedPush es e = tl (es @ [e])"
    using assms by (intro boundedPush_full_tied) (simp_all add: sim_less_def)
  moreover have "es \<noteq> []"
    using assms(2) by (auto simp: K_def)
  ultimately show ?thesis by simp
qed

lemma upto_190:
  "[1..190] = 1 # [2..190::int]" "[1..190] = [1..189] @ [190::int]"
proof -
  have "[1..190] = 1 # [1 + 1..190::int]" by (rule upto_rec1) simp
  then show "[1..190] = 1 # [2..190::int]" by (simp del: upto_rec_numeral)
  have "[1..190] = [1..190 - 1] @ [190::int]" by (rule upto_rec2) simp
  then show "[1..190] = [1..189] @ [190::int]" by (simp del: upto_rec_numeral)
qed

text \<open>
  C5 (as stated, refuted). A queue is offered 190 entries of similarity 0.5 with the
  neighbour ids 1 to 190 and then the entry (191, 0.5), so that all 191 entries tie.
  When the 190 entries were inserted in ascending order of id, neighbour 1 is evicted;
  when the same entries were inserted in descending order, neighbour 190 is evicted.
  The entries and their ids are the same in both runs: the insertion order decides,
  not the neighbour id.
\<close>

theorem C5_tie_eviction_follows_insertion_order:
  "foldl boundedPush [] (map (candidateOf (1 / 2)) [1..190] @ [candidateOf (1 / 2) 191])
     = map (candidateOf (1 / 2)) [2..190] @ [candidateOf (1 / 2) 191]
   \<and> foldl boundedPush [] (map (candidateOf (1 / 2)) (rev [1..190]) @ [candidateOf (1 / 2) 191])
     = map (candidateOf (1 / 2)) (rev [1..189]) @ [candidateOf (1 / 2) 191]"
proof -
  let ?t = "candidateOf (1 / 2)"
  have A: "foldl boundedPush [] (map ?t [1..190] @ [?t 191]) = tl (map ?t [1..190]) @ [?t 191]"
    by (rule tied_overflow [where v = "1 / 2"])
       (simp_all add: K_def candidateOf_def del: upto_rec_numeral)
  have B: "foldl boundedPush [] (map ?t (rev [1..190]) @ [?t 191]) = tl (map ?t (rev [1..190])) @ [?t 191]"
    by (rule tied_overflow [where v = "1 / 2"])
       (simp_all add: K_def candidateOf_def del: upto_rec_numeral)
  have "tl (map ?t [1..190]) = map ?t [2..190]"
    by (simp add: upto_190(1) del: upto_rec_numeral)
  moreover have "tl (map ?t (rev [1..190])) = map ?t (rev [1..189])"
    by (simp add: upto_190(2) del: upto_rec_numeral)
  ultimately show ?thesis using A B by (simp del: upto_rec_numeral)
qed

text \<open>
  C5 (amended). When a push makes a user's queue exceed K entries, the entry to evict
  is chosen by comparing similarity values only, \<open>Similarity::operator<\<close> having no
  secondary key: renaming the neighbour ids of the queue's entries and of the pushed
  entry in any way changes nothing but the ids in the resulting queue, so the same
  position is evicted whatever the ids are. Among entries of equal similarity the
  choice therefore follows the queue's internal (insertion) order, not the neighbour
  id.
\<close>

theorem C5_eviction_ignores_neighbor_ids:
  "boundedPush (map (renameNeighbor f) pq) (renameNeighbor f e)
     = map (renameNeighbor f) (boundedPush pq e)"
  by (simp add: boundedPush_def pq_pop_def pq_push_rename Let_def map_tl)

text \<open>
  C6 (the code departs from the claim). A queue is offered 190 entries of similarity
  0.5 (neighbours 1 to 190) and then the entry (191, 0.9). The push makes the size
  191, and \<open>pop()\<close> removes the top of the max-priority queue, which is the entry
  (191, 0.9) just pushed: the queue is left with the 190 entries of similarity 0.5.
  The claim has the single smallest-similarity entry evicted, which would keep
  (191, 0.9) and drop an entry of similarity 0.5. The size bound itself holds
  (\<open>boundedPush_length\<close>).
\<close>

theorem C6_eviction_removes_the_greatest:
  "foldl boundedPush [] (map (candidateOf (1 / 2)) [1..190] @ [candidateOf (9 / 10) 191])
     = map (candidateOf (1 / 2)) [1..190]"
proof -
  let ?es = "map (candidateOf (1 / 2)) [1..190]"
  have full: "foldl boundedPush [] ?es = ?es"
    using fill_tied [of "[]" ?es "1 / 2"]
    by (simp add: K_def candidateOf_def del: upto_rec_numeral)
  have hd: "hd ?es = candidateOf (1 / 2) 1" "?es \<noteq> []"
    by (simp_all add: upto_190(1) del: upto_rec_numeral)
  have "boundedPush ?es (candidateOf (9 / 10) 191) = ?es"
    by (rule boundedPush_full_greatest)
       (simp_all add: hd sim_less_def K_def candidateOf_def del: upto_rec_numeral)
  then show ?thesis by (simp add: full del: upto_rec_numeral)
qed

subsection \<open>Candidate registration\<close>

lemma neighborStep_offers:
  "neighborStep mm uA tn mapB = foldl offer tn (pairCandidates mm uA mapB)"
  by (simp add: neighborStep_def pairCandidates_def split: prod.splits option.splits)

lemma inner_offers:
  "foldl (neighborStep mm uA) tn inner = foldl offer tn (concat (map (pairCandidates mm uA) inner))"
  by (induction inner arbitrary: tn) (simp_all add: neighborStep_offers)

lemma build_offers: "buildTopNeighbors d mm = foldl offer Map.empty (candidates d mm)"
proof -
  have "foldl (\<lambda>tn mapA. foldl (neighborStep mm (fst mapA)) tn (snd mapA)) tn d
        = foldl offer tn (candidates d mm)" for tn
    by (induction d arbitrary: tn) (simp_all add: candidates_def inner_offers)
  then show ?thesis by (simp add: buildTopNeighbors_def)
qed

lemma queueOf_offer:
  "queueOf (offer tn c) u = (if fst c = u then boundedPush (queueOf tn u) (snd c) else queueOf tn u)"
  by (simp add: offer_def queueOf_def)

lemma boundedPush_room: "length pq < K \<Longrightarrow> boundedPush pq e = pq_push pq e"
  by (simp add: boundedPush_def Let_def length_pq_push)

lemma offers_room:
  "length (queueOf tn u) + length (filter (\<lambda>c. fst c = u) cs) \<le> K \<Longrightarrow>
   set (queueOf (foldl offer tn cs) u) = set (queueOf tn u) \<union> snd ` {c \<in> set cs. fst c = u}"
proof (induction cs arbitrary: tn)
  case Nil
  then show ?case by simp
next
  case (Cons c cs)
  show ?case
  proof (cases "fst c = u")
    case True
    with Cons.prems have room: "length (queueOf tn u) < K" by simp
    have q: "queueOf (offer tn c) u = pq_push (queueOf tn u) (snd c)"
      using True room by (simp add: queueOf_offer boundedPush_room)
    have "length (queueOf (offer tn c) u) + length (filter (\<lambda>c. fst c = u) cs) \<le> K"
      using Cons.prems True by (simp add: q length_pq_push)
    from Cons.IH [OF this] True show ?thesis
      by (auto simp: q set_pq_push)
  next
    case False
    then have q: "queueOf (offer tn c) u = queueOf tn u"
      by (simp add: queueOf_offer)
    have "length (queueOf (offer tn c) u) + length (filter (\<lambda>c. fst c = u) cs) \<le> K"
      using Cons.prems False by (simp add: q)
    from Cons.IH [OF this] False show ?thesis
      by (auto simp: q)
  qed
qed

lemma registered_without_eviction:
  assumes "(u, e) \<in> set (candidates d mm)"
    and "length (filter (\<lambda>c. fst c = u) (candidates d mm)) \<le> K"
  shows "e \<in> set (queueOf (buildTopNeighbors d mm) u)"
proof -
  have "set (queueOf (foldl offer Map.empty (candidates d mm)) u)
          = set (queueOf Map.empty u) \<union> snd ` {c \<in> set (candidates d mm). fst c = u}"
    using assms(2) by (intro offers_room) (simp add: queueOf_def)
  moreover have "e \<in> snd ` {c \<in> set (candidates d mm). fst c = u}"
    using assms(1) by force
  ultimately show ?thesis by (simp add: build_offers)
qed

lemma step_queues:
  assumes "finalSimilarity dd (magGet mm uA) (magGet mm uB) = Some s" and "s > 0" and "uA \<noteq> uB"
  shows "queueOf (neighborStep mm uA tn (uB, dd)) uA
           = boundedPush (queueOf tn uA) \<lparr>userB = uB, valueS = s\<rparr>"
    and "queueOf (neighborStep mm uA tn (uB, dd)) uB
           = boundedPush (queueOf tn uB) \<lparr>userB = uA, valueS = s\<rparr>"
  using assms by (simp_all add: neighborStep_def queueOf_offer)

text \<open>
  C7. For every accumulated pair \<open>(uA, uB)\<close> whose \<open>finalSim\<close> is strictly
  positive, the candidate \<open>(uB, finalSim)\<close> is registered for user \<open>uA\<close> and the
  candidate \<open>(uA, finalSim)\<close>, with the identical value, for user \<open>uB\<close>: the step
  of the loop for that pair pushes the one entry on \<open>uA\<close>'s bounded queue and the
  other on \<open>uB\<close>'s, and the entry is in the queue right afterwards when the queue
  had room. For a user whose candidates number at most K, so that nothing is ever
  evicted from that user's queue, the finished queue holds the entry.
\<close>

theorem C7_symmetric_registration:
  assumes "(uA, inner) \<in> set dotAB" and "(uB, dd) \<in> set inner"
    and "finalSimilarity dd (magGet mm uA) (magGet mm uB) = Some s" and "s > 0"
  shows "(uA, \<lparr>userB = uB, valueS = s\<rparr>) \<in> set (candidates dotAB mm)
       \<and> (uB, \<lparr>userB = uA, valueS = s\<rparr>) \<in> set (candidates dotAB mm)
       \<and> buildTopNeighbors dotAB mm = foldl offer Map.empty (candidates dotAB mm)
       \<and> (uA \<noteq> uB \<longrightarrow>
            queueOf (neighborStep mm uA tn (uB, dd)) uA
              = boundedPush (queueOf tn uA) \<lparr>userB = uB, valueS = s\<rparr>
          \<and> queueOf (neighborStep mm uA tn (uB, dd)) uB
              = boundedPush (queueOf tn uB) \<lparr>userB = uA, valueS = s\<rparr>
          \<and> (length (queueOf tn uA) < K \<longrightarrow>
                \<lparr>userB = uB, valueS = s\<rparr> \<in> set (queueOf (neighborStep mm uA tn (uB, dd)) uA))
          \<and> (length (queueOf tn uB) < K \<longrightarrow>
                \<lparr>userB = uA, valueS = s\<rparr> \<in> set (queueOf (neighborStep mm uA tn (uB, dd)) uB)))
       \<and> (length (filter (\<lambda>c. fst c = uA) (candidates dotAB mm)) \<le> K \<longrightarrow>
            \<lparr>userB = uB, valueS = s\<rparr> \<in> set (queueOf (buildTopNeighbors dotAB mm) uA))
       \<and> (length (filter (\<lambda>c. fst c = uB) (candidates dotAB mm)) \<le> K \<longrightarrow>
            \<lparr>userB = uA, valueS = s\<rparr> \<in> set (queueOf (buildTopNeighbors dotAB mm) uB))"
proof -
  have "pairCandidates mm uA (uB, dd)
          = [(uA, \<lparr>userB = uB, valueS = s\<rparr>), (uB, \<lparr>userB = uA, valueS = s\<rparr>)]"
    using assms(3,4) by (simp add: pairCandidates_def)
  then have "set [(uA, \<lparr>userB = uB, valueS = s\<rparr>), (uB, \<lparr>userB = uA, valueS = s\<rparr>)]
               \<subseteq> set (candidates dotAB mm)"
    using assms(1,2) unfolding candidates_def by force
  then have c: "(uA, \<lparr>userB = uB, valueS = s\<rparr>) \<in> set (candidates dotAB mm)"
    "(uB, \<lparr>userB = uA, valueS = s\<rparr>) \<in> set (candidates dotAB mm)"
    by simp_all
  have room: "length pq < K \<Longrightarrow> e \<in> set (boundedPush pq e)" for pq e
    by (simp add: boundedPush_room set_pq_push)
  show ?thesis
    using c registered_without_eviction [OF c(1)] registered_without_eviction [OF c(2)]
      step_queues [OF assms(3,4)] room
    by (simp add: build_offers)
qed

theorem C7_symmetric_registration_witness:
  "(1, [(2, \<lparr>sumD = 4, countD = 1\<rparr>)]) \<in> set [(1, [(2, \<lparr>sumD = 4, countD = 1\<rparr>)])]
   \<and> finalSimilarity \<lparr>sumD = 4, countD = 1\<rparr> (magGet [1 \<mapsto> 4, 2 \<mapsto> 4] 1) (magGet [1 \<mapsto> 4, 2 \<mapsto> 4] 2)
       = Some (1 / 11)
   \<and> (1, \<lparr>userB = 2, valueS = 1 / 11\<rparr>)
       \<in> set (candidates [(1, [(2, \<lparr>sumD = 4, countD = 1\<rparr>)])] [1 \<mapsto> 4, 2 \<mapsto> 4])
   \<and> (2, \<lparr>userB = 1, valueS = 1 / 11\<rparr>)
       \<in> set (candidates [(1, [(2, \<lparr>sumD = 4, countD = 1\<rparr>)])] [1 \<mapsto> 4, 2 \<mapsto> 4])
   \<and> queueOf (buildTopNeighbors [(1, [(2, \<lparr>sumD = 4, countD = 1\<rparr>)])] [1 \<mapsto> 4, 2 \<mapsto> 4]) 1
       = [\<lparr>userB = 2, valueS = 1 / 11\<rparr>]
   \<and> queueOf (buildTopNeighbors [(1, [(2, \<lparr>sumD = 4, countD = 1\<rparr>)])] [1 \<mapsto> 4, 2 \<mapsto> 4]) 2
       = [\<lparr>userB = 1, valueS = 1 / 11\<rparr>]
   \<and> \<lparr>userB = 2, valueS = 1 / 11\<rparr>
       \<in> set (queueOf (buildTopNeighbors [(1, [(2, \<lparr>sumD = 4, countD = 1\<rparr>)])] [1 \<mapsto> 4, 2 \<mapsto> 4]) 1)
   \<and> \<lparr>userB = 1, valueS = 1 / 11\<rparr>
       \<in> set (queueOf (buildTopNeighbors [(1, [(2, \<lparr>sumD = 4, countD = 1\<rparr>)])] [1 \<mapsto> 4, 2 \<mapsto> 4]) 2)"
proof -
  let ?dd = "\<lparr>sumD = 4, countD = 1\<rparr>"
  let ?mm = "[1 \<mapsto> 4, 2 \<mapsto> 4] :: magnitude_map"
  have fs: "finalSimilarity ?dd (magGet ?mm 1) (magGet ?mm 2) = Some (1 / 11)"
    by (simp add: finalSimilarity_def cosineSimilarity_def magGet_def SHRINK_def AMP_FACTOR_def)
  have cs: "candidates [(1, [(2, ?dd)])] ?mm
              = [(1, \<lparr>userB = 2, valueS = 1 / 11\<rparr>), (2, \<lparr>userB = 1, valueS = 1 / 11\<rparr>)]"
    by (simp add: candidates_def pairCandidates_def fs)
  have q: "queueOf (buildTopNeighbors [(1, [(2, ?dd)])] ?mm) 1 = [\<lparr>userB = 2, valueS = 1 / 11\<rparr>]"
    "queueOf (buildTopNeighbors [(1, [(2, ?dd)])] ?mm) 2 = [\<lparr>userB = 1, valueS = 1 / 11\<rparr>]"
    by (simp_all add: buildTopNeighbors_def neighborStep_def fs offer_def queueOf_def
        boundedPush_def K_def)
  have h: "(1, [(2, ?dd)]) \<in> set [(1, [(2, ?dd)])]" "(2, ?dd) \<in> set [(2, ?dd)]" "(0::real) < 1 / 11"
    by simp_all
  note t = C7_symmetric_registration [OF h(1,2) fs h(3), where tn = Map.empty]
  from t have c: "(1, \<lparr>userB = 2, valueS = 1 / 11\<rparr>) \<in> set (candidates [(1, [(2, ?dd)])] ?mm)"
    "(2, \<lparr>userB = 1, valueS = 1 / 11\<rparr>) \<in> set (candidates [(1, [(2, ?dd)])] ?mm)"
    by blast+
  have l: "length (filter (\<lambda>c. fst c = 1) (candidates [(1, [(2, ?dd)])] ?mm)) \<le> K"
    "length (filter (\<lambda>c. fst c = 2) (candidates [(1, [(2, ?dd)])] ?mm)) \<le> K"
    by (simp_all add: cs K_def)
  from t l have m: "\<lparr>userB = 2, valueS = 1 / 11\<rparr> \<in> set (queueOf (buildTopNeighbors [(1, [(2, ?dd)])] ?mm) 1)"
    "\<lparr>userB = 1, valueS = 1 / 11\<rparr> \<in> set (queueOf (buildTopNeighbors [(1, [(2, ?dd)])] ?mm) 2)"
    by blast+
  from h(1) fs c q m show ?thesis by blast
qed

subsection \<open>Which users the stages mention\<close>

lemma keys_ingest:
  "fst ` set (ratingsByUsers (foldl ingest_step st recs))
     = fst ` set (ratingsByUsers st) \<union> fst ` set recs"
proof (induction recs arbitrary: st)
  case Nil
  then show ?case by simp
next
  case (Cons rec recs)
  obtain u i r where rec: "rec = (u, i, r)" by (cases rec)
  have "fst ` set (ratingsByUsers (ingest_step st rec)) = insert u (fst ` set (ratingsByUsers st))"
    by (simp add: rec ingest_step_def put_rating_def dom_update)
  then show ?case by (simp add: Cons.IH rec)
qed

lemma keys_ingest_users: "fst ` set (ratingsByUsers (ingest recs)) = trainingUsers recs"
  by (simp add: ingest_def keys_ingest ingest_init_def trainingUsers_def)

lemma dom_initUserBias: "dom (initUserBias store) = fst ` set store"
proof -
  have "dom (foldl (\<lambda>userBias uPair. userBias(fst uPair \<mapsto> 0::real)) ub store)
          = dom ub \<union> fst ` set store" for ub :: user_bias
    by (induction store arbitrary: ub) auto
  then show ?thesis by (simp add: initUserBias_def)
qed

lemma dom_biasUpdate: "dom (fst (biasUpdate gm u st p)) = insert u (dom (fst st))"
  by (simp add: biasUpdate_def Let_def split: prod.splits)

lemma length_biasUpdate: "length (snd (biasUpdate gm u st p)) = length (snd st)"
  by (simp add: biasUpdate_def Let_def split: prod.splits)

lemma user_loop_frame:
  "u \<in> dom (fst st) \<Longrightarrow>
   dom (fst (foldl (biasUpdate gm u) st m)) = dom (fst st)
   \<and> length (snd (foldl (biasUpdate gm u) st m)) = length (snd st)"
  by (induction m arbitrary: st) (auto simp: dom_biasUpdate length_biasUpdate)

lemma biasPass_frame:
  "fst ` set store \<subseteq> dom (fst st) \<Longrightarrow>
   dom (fst (biasPass gm store st)) = dom (fst st)
   \<and> length (snd (biasPass gm store st)) = length (snd st)"
  unfolding biasPass_def
proof (induction store arbitrary: st)
  case Nil
  then show ?case by simp
next
  case (Cons uPair store)
  let ?st1 = "foldl (biasUpdate gm (fst uPair)) st (snd uPair)"
  have 1: "dom (fst ?st1) = dom (fst st) \<and> length (snd ?st1) = length (snd st)"
    using Cons.prems by (intro user_loop_frame) auto
  with Cons.prems have "fst ` set store \<subseteq> dom (fst ?st1)" by auto
  from Cons.IH [OF this] 1 show ?case by simp
qed

lemma fitBiases_frame:
  assumes "fst ` set store \<subseteq> dom (fst st)"
  shows "dom (fst (fitBiases gm store st)) = dom (fst st)
       \<and> length (snd (fitBiases gm store st)) = length (snd st)"
proof -
  have "dom (fst ((biasPass gm store ^^ n) st)) = dom (fst st)
       \<and> length (snd ((biasPass gm store ^^ n) st)) = length (snd st)" for n
  proof (induction n)
    case 0
    then show ?case by simp
  next
    case (Suc n)
    then have "fst ` set store \<subseteq> dom (fst ((biasPass gm store ^^ n) st))"
      using assms by simp
    from biasPass_frame [OF this] Suc show ?case by simp
  qed
  then show ?thesis by (simp add: fitBiases_def)
qed

lemma fittedBiases_frame:
  "dom (fst (fittedBiases recs)) = trainingUsers recs"
  "length (snd (fittedBiases recs)) = nat (maxItemId (ingest recs) + 1)"
  using fitBiases_frame [of "ratingsByUsers (ingest recs)"
      "(initUserBias (ratingsByUsers (ingest recs)), initItemBias (maxItemId (ingest recs)))"
      "globalMeanOf (ingest recs)"]
  by (simp_all add: fittedBiases_def Let_def dom_initUserBias keys_ingest_users initItemBias_def)

lemma ubTouch_known: "u \<in> dom ub \<Longrightarrow> ubTouch ub u = ub"
  by (auto simp: ubTouch_def)

lemma set_update_within:
  "\<forall>l\<in>set xs. P l \<Longrightarrow> (n < length xs \<Longrightarrow> P x) \<Longrightarrow> \<forall>l\<in>set (xs[n := x]). P l"
proof (cases "n < length xs")
  case True
  assume "\<forall>l\<in>set xs. P l" and "n < length xs \<Longrightarrow> P x"
  with True show ?thesis
    using set_update_subset_insert [of xs n x] by auto
next
  case False
  assume "\<forall>l\<in>set xs. P l"
  with False show ?thesis by (simp add: list_update_beyond)
qed

lemma projectRating_frame:
  assumes "u \<in> dom (fst st)" and "u \<in> U" and "usersWithin U (snd st)"
  shows "fst (projectRating gm ib u st p) = fst st
       \<and> usersWithin U (snd (projectRating gm ib u st p))
       \<and> length (snd (projectRating gm ib u st p)) = length (snd st)"
proof -
  obtain ub itu where st: "st = (ub, itu)" by (cases st)
  obtain i r where p: "p = (i, r)" by (cases p)
  have "\<forall>l\<in>set (itu[nat i := itu ! nat i @ [(u, x)]]). fst ` set l \<subseteq> U" for x
    using assms(2,3) by (intro set_update_within) (auto simp: st usersWithin_def)
  then show ?thesis
    using assms(1) by (simp add: st p projectRating_def Let_def ubTouch_known usersWithin_def)
qed

lemma project_user_loop_frame:
  assumes "u \<in> dom (fst st)" and "u \<in> U" and "usersWithin U (snd st)"
  shows "fst (foldl (projectRating gm ib u) st m) = fst st
       \<and> usersWithin U (snd (foldl (projectRating gm ib u) st m))
       \<and> length (snd (foldl (projectRating gm ib u) st m)) = length (snd st)"
  using assms
proof (induction m arbitrary: st)
  case Nil
  then show ?case by simp
next
  case (Cons p m)
  from projectRating_frame [OF Cons.prems, of gm ib p]
  have 1: "fst (projectRating gm ib u st p) = fst st"
    and 2: "usersWithin U (snd (projectRating gm ib u st p))"
    and 3: "length (snd (projectRating gm ib u st p)) = length (snd st)" by simp_all
  have "u \<in> dom (fst (projectRating gm ib u st p))" using 1 Cons.prems(1) by simp
  from Cons.IH [OF this Cons.prems(2) 2] 1 3 show ?case by simp
qed

lemma buildItemToUser_frame:
  assumes "fst ` set store \<subseteq> dom ub" and "fst ` set store \<subseteq> U"
  shows "fst (buildItemToUser gm ib store ub M) = ub
       \<and> usersWithin U (snd (buildItemToUser gm ib store ub M))
       \<and> length (snd (buildItemToUser gm ib store ub M)) = nat (M + 1)"
proof -
  have "fst ` set store \<subseteq> dom (fst st) \<Longrightarrow> usersWithin U (snd st) \<Longrightarrow>
        fst (foldl (\<lambda>st uPair. foldl (projectRating gm ib (fst uPair)) st (snd uPair)) st store) = fst st
      \<and> usersWithin U (snd (foldl (\<lambda>st uPair. foldl (projectRating gm ib (fst uPair)) st (snd uPair)) st store))
      \<and> length (snd (foldl (\<lambda>st uPair. foldl (projectRating gm ib (fst uPair)) st (snd uPair)) st store))
          = length (snd st)" for st
    using assms(2)
  proof (induction store arbitrary: st)
    case Nil
    then show ?case by simp
  next
    case (Cons uPair store)
    let ?st1 = "foldl (projectRating gm ib (fst uPair)) st (snd uPair)"
    have 1: "fst ?st1 = fst st \<and> usersWithin U (snd ?st1) \<and> length (snd ?st1) = length (snd st)"
      using Cons.prems by (intro project_user_loop_frame) auto
    then have "fst ` set store \<subseteq> dom (fst ?st1)" using Cons.prems by auto
    from Cons.IH [OF this] 1 Cons.prems(3) show ?case by simp
  qed
  from this [of "(ub, replicate (nat (M + 1)) [])"] assms(1)
  show ?thesis by (simp add: buildItemToUser_def usersWithin_def)
qed

lemma residuals_frame:
  "fst (residuals recs) = fst (fittedBiases recs)"
  "usersWithin (trainingUsers recs) (snd (residuals recs))"
  "length (snd (residuals recs)) = nat (maxItemId (ingest recs) + 1)"
  using buildItemToUser_frame [of "ratingsByUsers (ingest recs)" "fst (fittedBiases recs)"
      "trainingUsers recs" "globalMeanOf (ingest recs)" "snd (fittedBiases recs)"
      "maxItemId (ingest recs)"]
  by (simp_all add: residuals_def Let_def fittedBiases_frame keys_ingest_users)

lemma set_AList_update: "set (AList.update k v al) \<subseteq> insert (k, v) (set al)"
  by (induction al) auto

lemma dotWithin_dotAcc:
  assumes "dotWithin U d" and "a \<in> U" and "b \<in> U"
  shows "dotWithin U (dotAcc d a b p)"
proof -
  have inner: "fst ` set (dotInner d a) \<subseteq> U"
  proof (cases "map_of d a")
    case None
    then show ?thesis by (simp add: dotInner_def)
  next
    case (Some inner)
    then have "(a, inner) \<in> set d" by (rule map_of_SomeD)
    with assms(1) Some show ?thesis by (force simp: dotInner_def dotWithin_def)
  qed
  have keys: "fst ` set (AList.update b v (dotInner d a)) \<subseteq> U" for v
    using inner assms(3) by (simp add: dom_update)
  show ?thesis
    unfolding dotWithin_def dotAcc_def Let_def
  proof
    fix mapA
    assume "mapA \<in> set (AList.update a
        (AList.update b \<lparr>sumD = sumD (dotOf d a b) + p, countD = countD (dotOf d a b) + 1\<rparr>
          (dotInner d a)) d)"
    then consider
        "mapA = (a, AList.update b \<lparr>sumD = sumD (dotOf d a b) + p, countD = countD (dotOf d a b) + 1\<rparr>
                  (dotInner d a))"
      | "mapA \<in> set d"
      using set_AList_update by fastforce
    then show "fst mapA \<in> U \<and> fst ` set (snd mapA) \<subseteq> U"
    proof cases
      case 1
      then show ?thesis using assms(2) keys by simp
    next
      case 2
      then show ?thesis using assms(1) by (simp add: dotWithin_def)
    qed
  qed
qed

lemma dotWithin_accPair:
  "dotWithin U d \<Longrightarrow> fst pa \<in> U \<Longrightarrow> fst pb \<in> U \<Longrightarrow> dotWithin U (accPair pa d pb)"
  by (auto simp: accPair_def dotWithin_dotAcc split: prod.splits)

lemma dotWithin_inner_loop:
  "dotWithin U d \<Longrightarrow> fst pa \<in> U \<Longrightarrow> fst ` set rest \<subseteq> U \<Longrightarrow> dotWithin U (foldl (accPair pa) d rest)"
  by (induction rest arbitrary: d) (auto simp: dotWithin_accPair)

lemma dotWithin_pairLoop:
  "dotWithin U d \<Longrightarrow> fst ` set listU \<subseteq> U \<Longrightarrow> dotWithin U (pairLoop listU d)"
  by (induction listU arbitrary: d) (auto simp: dotWithin_inner_loop)

lemma dotWithin_computeDots:
  assumes "usersWithin U itu" and "length itu = nat (M + 1)"
  shows "dotWithin U (computeDots itu M)"
proof -
  have "dotWithin U d \<Longrightarrow> set is \<subseteq> {1..M} \<Longrightarrow>
        dotWithin U (foldl (\<lambda>dotAB i. pairLoop (itu ! nat i) dotAB) d is)" for d "is"
  proof (induction "is" arbitrary: d)
    case Nil
    then show ?case by simp
  next
    case (Cons i "is")
    then have "nat i < length itu" using assms(2) by simp
    then have "fst ` set (itu ! nat i) \<subseteq> U"
      using assms(1) by (simp add: usersWithin_def)
    with Cons show ?case by (simp add: dotWithin_pairLoop)
  qed
  from this [of "[]" "[1..M]"] show ?thesis
    by (simp add: computeDots_def dotWithin_def)
qed

lemma candidates_within:
  assumes "dotWithin U d" and "c \<in> set (candidates d mm)"
  shows "fst c \<in> U \<and> userB (snd c) \<in> U"
proof -
  from assms(2) obtain mapA mapB where m: "mapA \<in> set d" "mapB \<in> set (snd mapA)"
    and c: "c \<in> set (pairCandidates mm (fst mapA) mapB)"
    by (auto simp: candidates_def)
  from m assms(1) have "fst mapA \<in> U" "fst mapB \<in> U"
    by (auto simp: dotWithin_def)
  with c show ?thesis
    by (auto simp: pairCandidates_def split: prod.splits option.splits if_splits)
qed

lemma neighborsWithin_offer:
  assumes "neighborsWithin U tn" and "fst c \<in> U" and "userB (snd c) \<in> U"
  shows "neighborsWithin U (offer tn c)"
proof -
  have "userB ` set (queueOf tn (fst c)) \<subseteq> U"
  proof (cases "tn (fst c)")
    case None
    then show ?thesis by (simp add: queueOf_def)
  next
    case (Some pq)
    with assms(1) have "userB ` set pq \<subseteq> U"
      unfolding neighborsWithin_def by blast
    with Some show ?thesis by (simp add: queueOf_def)
  qed
  then have "userB ` set (boundedPush (queueOf tn (fst c)) (snd c)) \<subseteq> U"
    using assms(3) set_boundedPush [of "queueOf tn (fst c)" "snd c"] by auto
  then show ?thesis
    using assms(1,2) by (auto simp: offer_def neighborsWithin_def)
qed

lemma neighborsWithin_offers:
  "neighborsWithin U tn \<Longrightarrow> \<forall>c\<in>set cs. fst c \<in> U \<and> userB (snd c) \<in> U
   \<Longrightarrow> neighborsWithin U (foldl offer tn cs)"
  by (induction cs arbitrary: tn) (auto simp: neighborsWithin_offer)

lemma neighborsWithin_build:
  "dotWithin U d \<Longrightarrow> neighborsWithin U (buildTopNeighbors d mm)"
  unfolding build_offers
  by (rule neighborsWithin_offers) (auto simp: neighborsWithin_def dest: candidates_within)

lemma trained_neighbors:
  "neighborsWithin (trainingUsers recs) (buildTopNeighbors (dots recs) (magnitudes recs))"
  by (intro neighborsWithin_build dotWithin_computeDots [folded dots_def] )
     (simp_all add: dots_def residuals_frame dotWithin_computeDots)

subsection \<open>Queries\<close>

lemma touchUser_known: "u \<in> fst ` set store \<Longrightarrow> touchUser store u = store"
  by (auto simp: touchUser_def map_of_eq_None_iff split: option.splits)

lemma drain_frame:
  assumes "userB ` set pq \<subseteq> dom (userBias m)" and "userB ` set pq \<subseteq> fst ` set (ratingsByUsers m)"
  shows "snd (drain itemId m pq acc) = m"
  using assms
proof (induction pq arbitrary: acc)
  case Nil
  then show ?case by simp
next
  case (Cons topSim pq)
  obtain ws sw where acc: "acc = (ws, sw)" by (cases acc)
  have 1: "touchUser (ratingsByUsers m) (userB topSim) = ratingsByUsers m"
    using Cons.prems(2) by (intro touchUser_known) simp
  have 2: "ubTouch (userBias m) (userB topSim) = userBias m"
    using Cons.prems(1) by (intro ubTouch_known) simp
  have IH: "snd (drain itemId m pq a) = m" for a
    using Cons.prems by (intro Cons.IH) simp_all
  show ?case
    by (simp add: acc 1 2 IH Let_def split: option.splits)
qed

lemma trainModel_fields:
  "dom (userBias (trainModel recs)) = trainingUsers recs"
  "fst ` set (ratingsByUsers (trainModel recs)) = trainingUsers recs"
  "neighborsWithin (trainingUsers recs) (topNeighbors (trainModel recs))"
  "length (itemBias (trainModel recs)) = nat (maxItemId (trainModel recs) + 1)"
  "userBias (trainModel recs) = fst (fittedBiases recs)"
  by (simp_all add: trainModel_def residuals_frame fittedBiases_frame keys_ingest_users
      trained_neighbors)

lemma query_frame_trained: "snd (query (trainModel recs) q) = trainModel recs"
proof -
  obtain userId itemId where q: "q = (userId, itemId)" by (cases q)
  show ?thesis
  proof (cases "topNeighbors (trainModel recs) userId")
    case None
    then show ?thesis by (simp add: q query_def Let_def)
  next
    case (Some pq)
    with trainModel_fields(3) [of recs] have "userB ` set pq \<subseteq> trainingUsers recs"
      unfolding neighborsWithin_def by blast
    then have "snd (drain itemId (trainModel recs) pq (0, 0)) = trainModel recs"
      by (intro drain_frame) (simp_all add: trainModel_fields(1,2))
    with Some show ?thesis by (simp add: q query_def Let_def)
  qed
qed

lemma runQueries_trained:
  "runQueries (trainModel recs) qs = (map (\<lambda>q. fst (query (trainModel recs) q)) qs, trainModel recs)"
  by (induction qs) (simp_all add: query_frame_trained Let_def)

lemma biasPass_empty: "biasPass gm [] = id"
  by (rule ext) (simp add: biasPass_def)

lemma trainModel_empty:
  "trainModel [] = \<lparr>ratingsByUsers = [], globalSum = 0, globalCount = 0, maxUserId = 0,
      maxItemId = 0, globalMean = 7 / 2, userBias = Map.empty, itemBias = [0],
      topNeighbors = Map.empty\<rparr>"
  by (simp add: trainModel_def ingest_def ingest_init_def globalMeanOf_def residuals_def
      fittedBiases_def fitBiases_def biasPass_empty initUserBias_def initItemBias_def
      buildItemToUser_def dots_def computeDots_def buildTopNeighbors_def)

text \<open>
  C2 (as stated, refuted). In the training stream \<open>(1, 0, 5.0), (2, 1, 1.0)\<close> item 0
  is rated (by user 1), \<open>maxItemId\<close> is 1, and the fitted \<open>itemBias[0]\<close> is strictly
  positive. For the query (3, 0) of the unseen user 3 the claim's baseline is
  globalMean + 0 + itemBias[0], which is greater than globalMean; the code's baseline
  is globalMean alone, because the guard \<open>itemId >= 1\<close> of line 242 rejects item 0.
\<close>

theorem C2_item_0_bias_not_in_baseline:
  "train [(1, 0, 5), (2, 1, 1)] = Some (trainModel [(1, 0, 5), (2, 1, 1)])
   \<and> map_of (ratingsByUsers (trainModel [(1, 0, 5), (2, 1, 1)])) 1 = Some [(0, 5)]
   \<and> maxItemId (trainModel [(1, 0, 5), (2, 1, 1)]) = 1
   \<and> userBias (trainModel [(1, 0, 5), (2, 1, 1)]) 3 = None
   \<and> queryBaseline (trainModel [(1, 0, 5), (2, 1, 1)]) 3 0 = globalMean (trainModel [(1, 0, 5), (2, 1, 1)])
   \<and> 0 < itemBias (trainModel [(1, 0, 5), (2, 1, 1)]) ! 0"
proof -
  have init: "(initUserBias [(1, [(0, 5)]), (2, [(1, 1)])], initItemBias 1) = ([1 \<mapsto> 0, 2 \<mapsto> 0], [0, 0])"
    by (simp add: initUserBias_def initItemBias_def numeral_2_eq_2)
  from passes_item0_single [of 8] obtain a b c d where
    eq: "(biasPass 3 [(1, [(0, 5)]), (2, [(1, 1)])] ^^ 8) ([1 \<mapsto> 0, 2 \<mapsto> 0], [0, 0])
           = ([1 \<mapsto> a, 2 \<mapsto> b], [c, d])" and c: "real 8 / 200 \<le> c"
    by blast
  have fb: "fittedBiases [(1, 0, 5), (2, 1, 1)] = ([1 \<mapsto> a, 2 \<mapsto> b], [c, d])"
    by (simp add: fittedBiases_def ingest_item0_single globalMeanOf_def fitBiases_def NUM_ITERS_def init eq)
  have ib: "0 < itemBias (trainModel [(1, 0, 5), (2, 1, 1)]) ! 0"
    using c by (simp add: trainModel_def fb)
  have "3 \<notin> dom (userBias (trainModel [(1, 0, 5), (2, 1, 1)]))"
    by (simp add: trainModel_fields(1) trainingUsers_def)
  then have ub: "userBias (trainModel [(1, 0, 5), (2, 1, 1)]) 3 = None"
    by blast
  have base: "queryBaseline (trainModel [(1, 0, 5), (2, 1, 1)]) 3 0 = globalMean (trainModel [(1, 0, 5), (2, 1, 1)])"
    by (simp add: queryBaseline_def ub)
  have st: "ratingsByUsers (trainModel [(1, 0, 5), (2, 1, 1)]) = [(1, [(0, 5)]), (2, [(1, 1)])]"
    "maxItemId (trainModel [(1, 0, 5), (2, 1, 1)]) = 1"
    by (simp_all add: trainModel_def ingest_item0_single)
  show ?thesis
    using ib ub base by (simp add: train_def addressable_def st)
qed

text \<open>
  C2 (amended). For every query (userId, itemId) against a trained model, the
  predictor's baseline is globalMean, plus userBias[userId] when the user occurs in
  the training stream (0 otherwise), plus itemBias[itemId] when
  1 \<le> itemId \<le> maxItemId (0 otherwise, hence also 0 for item id 0, whether or not
  item 0 was rated in training). Whenever the item term is read, the index lies inside
  the itemBias vector.
\<close>

theorem C2_baseline_items_from_1:
  assumes "train recs = Some m"
  shows "queryBaseline m userId itemId
           = globalMean m
             + (if userId \<in> trainingUsers recs then ubGet (userBias m) userId else 0)
             + (if 1 \<le> itemId \<and> itemId \<le> maxItemId m then itemBias m ! nat itemId else 0)
       \<and> (1 \<le> itemId \<and> itemId \<le> maxItemId m \<longrightarrow> nat itemId < length (itemBias m))"
proof -
  from assms(1) have m: "m = trainModel recs"
    by (simp add: train_def split: if_splits)
  have "(userBias m userId = None) = (userId \<notin> trainingUsers recs)"
    using trainModel_fields(1) [of recs] by (auto simp: m)
  moreover have "length (itemBias m) = nat (maxItemId m + 1)"
    by (simp add: m trainModel_fields(4))
  ultimately show ?thesis
    by (auto simp: queryBaseline_def Let_def ubGet_def split: option.splits)
qed

theorem C2_baseline_items_from_1_witness:
  "train [(1, 1, 4), (2, 1, 2)] = Some (trainModel [(1, 1, 4), (2, 1, 2)])
   \<and> queryBaseline (trainModel [(1, 1, 4), (2, 1, 2)]) 1 1
       = globalMean (trainModel [(1, 1, 4), (2, 1, 2)])
         + ubGet (userBias (trainModel [(1, 1, 4), (2, 1, 2)])) 1
         + itemBias (trainModel [(1, 1, 4), (2, 1, 2)]) ! 1
   \<and> 1 < length (itemBias (trainModel [(1, 1, 4), (2, 1, 2)]))"
proof -
  have t: "train [(1, 1, 4), (2, 1, 2)] = Some (trainModel [(1, 1, 4), (2, 1, 2)])"
    by (simp add: train_def addressable_def)
  have u: "1 \<in> trainingUsers [(1, 1, 4), (2, 1, 2)]"
    by (simp add: trainingUsers_def)
  have mx: "maxItemId (trainModel [(1, 1, 4), (2, 1, 2)]) = 1"
    by (simp add: trainModel_def ingest_def ingest_init_def ingest_step_def)
  from C2_baseline_items_from_1 [OF t, of 1 1] t u mx show ?thesis by simp
qed

text \<open>
  C8. With no training record the model is: globalMean 3.5, no user bias entry, the
  one-element itemBias vector [0], no neighbour queue; and for every query stream
  every prediction is exactly 3.5.
\<close>

theorem C8_empty_training:
  "train [] = Some \<lparr>ratingsByUsers = [], globalSum = 0, globalCount = 0, maxUserId = 0,
      maxItemId = 0, globalMean = 7 / 2, userBias = Map.empty, itemBias = [0],
      topNeighbors = Map.empty\<rparr>
   \<and> predictions [] queries = Some (replicate (length queries) (7 / 2))"
proof -
  let ?m = "\<lparr>ratingsByUsers = [], globalSum = 0, globalCount = 0, maxUserId = 0,
      maxItemId = 0, globalMean = 7 / 2, userBias = Map.empty, itemBias = [0::real],
      topNeighbors = Map.empty\<rparr> :: model"
  have t: "train [] = Some ?m"
    by (simp add: train_def addressable_def trainModel_empty)
  have q: "query ?m q = (7 / 2, ?m)" for q
    by (cases q) (simp add: query_def queryBaseline_def Let_def)
  have "runQueries ?m qs = (replicate (length qs) (7 / 2), ?m)" for qs
    by (induction qs) (simp_all add: q Let_def)
  then show ?thesis
    by (simp add: predictions_def t)
qed

lemma query_unseen:
  assumes "userId \<notin> trainingUsers recs"
  shows "query (trainModel recs) (userId, itemId)
           = (globalMean (trainModel recs)
                + (if 1 \<le> itemId \<and> itemId \<le> maxItemId (trainModel recs)
                   then itemBias (trainModel recs) ! nat itemId else 0),
              trainModel recs)"
proof -
  have ub: "userBias (trainModel recs) userId = None"
    using assms trainModel_fields(1) [of recs] by auto
  have tn: "topNeighbors (trainModel recs) userId = None"
  proof (cases "topNeighbors (trainModel recs) userId")
    case None
    then show ?thesis .
  next
    case (Some pq)
    with trainModel_fields(3) [of recs] have "userId \<in> trainingUsers recs"
      unfolding neighborsWithin_def by blast
    with assms show ?thesis by simp
  qed
  show ?thesis
    by (simp add: ub tn query_def queryBaseline_def Let_def)
qed

lemma fitted_item0_single:
  "0 < snd (fittedBiases [(1, 0, 5), (2, 1, 1)]) ! 0"
proof -
  have init: "(initUserBias [(1, [(0, 5)]), (2, [(1, 1)])], initItemBias 1) = ([1 \<mapsto> 0, 2 \<mapsto> 0], [0, 0])"
    by (simp add: initUserBias_def initItemBias_def numeral_2_eq_2)
  from passes_item0_single [of 8] obtain a b c d where
    eq: "(biasPass 3 [(1, [(0, 5)]), (2, [(1, 1)])] ^^ 8) ([1 \<mapsto> 0, 2 \<mapsto> 0], [0, 0])
           = ([1 \<mapsto> a, 2 \<mapsto> b], [c, d])" and c: "real 8 / 200 \<le> c"
    by blast
  have "fittedBiases [(1, 0, 5), (2, 1, 1)] = ([1 \<mapsto> a, 2 \<mapsto> b], [c, d])"
    by (simp add: fittedBiases_def ingest_item0_single globalMeanOf_def fitBiases_def NUM_ITERS_def init eq)
  with c show ?thesis by simp
qed

text \<open>
  C9 (as stated, refuted). In the training stream \<open>(1, 0, 5.0), (2, 1, 1.0)\<close> item 0
  is rated and its fitted bias is strictly positive; user 3 never occurs. The query
  (3, 0) is answered with globalMean alone, which is less than globalMean plus the
  bias of item 0: the prediction for an unseen user is not always globalMean plus
  the item's bias.
\<close>

theorem C9_unseen_user_item_0:
  "train [(1, 0, 5), (2, 1, 1)] = Some (trainModel [(1, 0, 5), (2, 1, 1)])
   \<and> 3 \<notin> trainingUsers [(1, 0, 5), (2, 1, 1)]
   \<and> map_of (ratingsByUsers (trainModel [(1, 0, 5), (2, 1, 1)])) 1 = Some [(0, 5)]
   \<and> 0 \<le> maxItemId (trainModel [(1, 0, 5), (2, 1, 1)])
   \<and> 0 < itemBias (trainModel [(1, 0, 5), (2, 1, 1)]) ! 0
   \<and> fst (query (trainModel [(1, 0, 5), (2, 1, 1)]) (3, 0)) = globalMean (trainModel [(1, 0, 5), (2, 1, 1)])
   \<and> fst (query (trainModel [(1, 0, 5), (2, 1, 1)]) (3, 0))
       < globalMean (trainModel [(1, 0, 5), (2, 1, 1)]) + itemBias (trainModel [(1, 0, 5), (2, 1, 1)]) ! 0"
proof -
  have u: "3 \<notin> trainingUsers [(1, 0, 5), (2, 1, 1)]"
    by (simp add: trainingUsers_def)
  have ib: "0 < itemBias (trainModel [(1, 0, 5), (2, 1, 1)]) ! 0"
    using fitted_item0_single by (simp add: trainModel_def)
  have q: "fst (query (trainModel [(1, 0, 5), (2, 1, 1)]) (3, 0)) = globalMean (trainModel [(1, 0, 5), (2, 1, 1)])"
    by (simp add: query_unseen [OF u])
  have st: "ratingsByUsers (trainModel [(1, 0, 5), (2, 1, 1)]) = [(1, [(0, 5)]), (2, [(1, 1)])]"
    "maxItemId (trainModel [(1, 0, 5), (2, 1, 1)]) = 1"
    by (simp_all add: trainModel_def ingest_item0_single)
  show ?thesis
    using u ib q by (simp add: train_def addressable_def st)
qed

text \<open>
  C9 (amended). For a query whose user id does not occur in the training stream the
  model has no \<open>userBias\<close> entry and no neighbour queue for that user, so no
  neighbour is visited and the weights stay 0; the query returns normally, its
  prediction is globalMean plus \<open>itemBias[itemId]\<close> when 1 \<le> itemId \<le> maxItemId
  and globalMean alone otherwise (also for item id 0), and the model is unchanged.
\<close>

theorem C9_unseen_user:
  assumes "train recs = Some m" and "userId \<notin> trainingUsers recs"
  shows "userBias m userId = None \<and> topNeighbors m userId = None
       \<and> query m (userId, itemId)
           = (globalMean m + (if 1 \<le> itemId \<and> itemId \<le> maxItemId m then itemBias m ! nat itemId else 0), m)"
proof -
  from assms(1) have m: "m = trainModel recs"
    by (simp add: train_def split: if_splits)
  have ub: "userBias m userId = None"
    using assms(2) trainModel_fields(1) [of recs] by (auto simp: m)
  have tn: "topNeighbors m userId = None"
  proof (cases "topNeighbors m userId")
    case None
    then show ?thesis .
  next
    case (Some pq)
    with trainModel_fields(3) [of recs] have "userId \<in> trainingUsers recs"
      unfolding neighborsWithin_def m by blast
    with assms(2) show ?thesis by simp
  qed
  show ?thesis
    by (simp add: ub tn query_def queryBaseline_def Let_def)
qed

theorem C9_unseen_user_witness:
  "train [(1, 1, 4), (2, 1, 2)] = Some (trainModel [(1, 1, 4), (2, 1, 2)])
   \<and> 7 \<notin> trainingUsers [(1, 1, 4), (2, 1, 2)]
   \<and> query (trainModel [(1, 1, 4), (2, 1, 2)]) (7, 1)
       = (globalMean (trainModel [(1, 1, 4), (2, 1, 2)]) + itemBias (trainModel [(1, 1, 4), (2, 1, 2)]) ! 1,
          trainModel [(1, 1, 4), (2, 1, 2)])"
proof -
  have t: "train [(1, 1, 4), (2, 1, 2)] = Some (trainModel [(1, 1, 4), (2, 1, 2)])"
    by (simp add: train_def addressable_def)
  have u: "7 \<notin> trainingUsers [(1, 1, 4), (2, 1, 2)]"
    by (simp add: trainingUsers_def)
  have mx: "maxItemId (trainModel [(1, 1, 4), (2, 1, 2)]) = 1"
    by (simp add: trainModel_def ingest_def ingest_init_def ingest_step_def)
  from C9_unseen_user [OF t u, of 1] t u mx show ?thesis by simp
qed

text \<open>
  C10. Processing a query leaves the trained model as it was (retained ratings,
  globalMean, user and item biases, every neighbour queue: the \<open>operator[]\<close> reads of
  lines 260 and 264 only meet keys that exist), so in any query stream the prediction
  written for a query is the one that query gets on the freshly trained model,
  whatever queries come before or after it.
\<close>

theorem C10_query_leaves_model_unchanged:
  assumes "train recs = Some m"
  shows "snd (query m q) = m
       \<and> runQueries m (before @ q # after)
           = (map (\<lambda>q. fst (query m q)) before @ fst (query m q) # map (\<lambda>q. fst (query m q)) after, m)"
proof -
  from assms have "m = trainModel recs"
    by (simp add: train_def split: if_splits)
  then show ?thesis
    by (simp add: query_frame_trained runQueries_trained)
qed

theorem C10_query_leaves_model_unchanged_witness:
  "train [(1, 1, 4), (2, 1, 2)] = Some (trainModel [(1, 1, 4), (2, 1, 2)])
   \<and> snd (query (trainModel [(1, 1, 4), (2, 1, 2)]) (1, 1)) = trainModel [(1, 1, 4), (2, 1, 2)]
   \<and> runQueries (trainModel [(1, 1, 4), (2, 1, 2)]) [(2, 1), (1, 1), (7, 0)]
       = ([fst (query (trainModel [(1, 1, 4), (2, 1, 2)]) (2, 1)),
           fst (query (trainModel [(1, 1, 4), (2, 1, 2)]) (1, 1)),
           fst (query (trainModel [(1, 1, 4), (2, 1, 2)]) (7, 0))],
          trainModel [(1, 1, 4), (2, 1, 2)])"
proof -
  have t: "train [(1, 1, 4), (2, 1, 2)] = Some (trainModel [(1, 1, 4), (2, 1, 2)])"
    by (simp add: train_def addressable_def)
  from C10_query_leaves_model_unchanged [OF t, of "(1, 1)" "[(2, 1)]" "[(7, 0)]"] t
  show ?thesis by (simp del: runQueries.simps)
qed

end
